theory Spec2Isabelle
  imports Complex_Main
begin

section \<open>The sitemap generator \<^verbatim>\<open>sitemap.py\<close>\<close>

text \<open>
  The program walks a directory tree, keeps the \<^verbatim>\<open>.html\<close> files whose URL does not contain
  \<^verbatim>\<open>/user/\<close>, resolves a last-modified timestamp for each, splits the entries into sitemap
  files of bounded size and writes an index of those files.

  Conventions of the embedding.
  \<^item> A Python \<^verbatim>\<open>str\<close> is a \<^typ>\<open>string\<close>; a \<^typ>\<open>char\<close> stands for a code point below 256.
    On that range \<^verbatim>\<open>\d\<close> is \<^verbatim>\<open>0-9\<close>, \<^verbatim>\<open>\s\<close> is the twelve characters of \<open>space_chars\<close> and
    \<^verbatim>\<open>str.lower\<close> maps \<^verbatim>\<open>A-Z\<close> and the upper-case letters of Latin-1.
  \<^item> Everything the program reads from outside is an explicit input: the clock is a function
    from the number of earlier readings to the reading, a file is the outcome of reading
    it and the outcome of asking for its modification time, the directory tree is a value.
  \<^item> An exception that leaves a function is the \<open>Inl\<close> of a sum; console output is a list
    of lines in the state.
  \<^item> Creating the output directory and writing the documents are taken to succeed: the
    documents are returned as values paired with the path they are written to.
\<close>

datatype py_exception = ZeroDivisionError | OSError string

fun exception_str :: "py_exception \<Rightarrow> string" where
  "exception_str ZeroDivisionError = ''integer division or modulo by zero''"
| "exception_str (OSError msg) = msg"


subsection \<open>Strings\<close>

definition upper_chars :: string where
  "upper_chars = ''ABCDEFGHIJKLMNOPQRSTUVWXYZ'' @
     [CHR 0xC0, CHR 0xC1, CHR 0xC2, CHR 0xC3, CHR 0xC4, CHR 0xC5, CHR 0xC6, CHR 0xC7,
      CHR 0xC8, CHR 0xC9, CHR 0xCA, CHR 0xCB, CHR 0xCC, CHR 0xCD, CHR 0xCE, CHR 0xCF,
      CHR 0xD0, CHR 0xD1, CHR 0xD2, CHR 0xD3, CHR 0xD4, CHR 0xD5, CHR 0xD6,
      CHR 0xD8, CHR 0xD9, CHR 0xDA, CHR 0xDB, CHR 0xDC, CHR 0xDD, CHR 0xDE]"

definition lower_chars :: string where
  "lower_chars = ''abcdefghijklmnopqrstuvwxyz'' @
     [CHR 0xE0, CHR 0xE1, CHR 0xE2, CHR 0xE3, CHR 0xE4, CHR 0xE5, CHR 0xE6, CHR 0xE7,
      CHR 0xE8, CHR 0xE9, CHR 0xEA, CHR 0xEB, CHR 0xEC, CHR 0xED, CHR 0xEE, CHR 0xEF,
      CHR 0xF0, CHR 0xF1, CHR 0xF2, CHR 0xF3, CHR 0xF4, CHR 0xF5, CHR 0xF6,
      CHR 0xF8, CHR 0xF9, CHR 0xFA, CHR 0xFB, CHR 0xFC, CHR 0xFD, CHR 0xFE]"

definition py_lower_char :: "char \<Rightarrow> char" where
  "py_lower_char c = (case map_of (zip upper_chars lower_chars) c of Some l \<Rightarrow> l | None \<Rightarrow> c)"

text \<open>\<^verbatim>\<open>s.lower()\<close>\<close>

definition py_lower :: "string \<Rightarrow> string" where
  "py_lower s = map py_lower_char s"

text \<open>\<^verbatim>\<open>s.startswith(p)\<close> and \<^verbatim>\<open>s.endswith(p)\<close>\<close>

definition startswith :: "string \<Rightarrow> string \<Rightarrow> bool" where
  "startswith s p = (take (length p) s = p)"

definition endswith :: "string \<Rightarrow> string \<Rightarrow> bool" where
  "endswith s p = (length p \<le> length s \<and> drop (length s - length p) s = p)"

text \<open>\<^verbatim>\<open>needle in hay\<close>\<close>

fun py_in :: "string \<Rightarrow> string \<Rightarrow> bool" where
  "py_in needle [] = (needle = [])"
| "py_in needle (c # cs) = (startswith (c # cs) needle \<or> py_in needle cs)"

text \<open>\<^verbatim>\<open>s.replace(old, new)\<close> for one-character \<^verbatim>\<open>old\<close> and \<^verbatim>\<open>new\<close>\<close>

definition py_replace :: "string \<Rightarrow> char \<Rightarrow> char \<Rightarrow> string" where
  "py_replace s old new = map (\<lambda>c. if c = old then new else c) s"

text \<open>\<^verbatim>\<open>s.rstrip(c)\<close> for a one-character argument\<close>

definition py_rstrip :: "string \<Rightarrow> char \<Rightarrow> string" where
  "py_rstrip s c = rev (dropWhile (\<lambda>x. x = c) (rev s))"

text \<open>\<^verbatim>\<open>sep.join(parts)\<close>\<close>

fun py_join :: "char \<Rightarrow> string list \<Rightarrow> string" where
  "py_join sep [] = []"
| "py_join sep [p] = p"
| "py_join sep (p # q # ps) = p @ sep # py_join sep (q # ps)"

definition digit_chars :: string where
  "digit_chars = ''0123456789''"

definition digit_val :: "char \<Rightarrow> nat option" where
  "digit_val c = map_of (zip digit_chars [0, 1, 2, 3, 4, 5, 6, 7, 8, 9]) c"

definition is_digit :: "char \<Rightarrow> bool" where
  "is_digit c = (digit_val c \<noteq> None)"

definition space_chars :: string where
  "space_chars = [CHR 0x09, CHR 0x0A, CHR 0x0B, CHR 0x0C, CHR 0x0D,
                  CHR 0x1C, CHR 0x1D, CHR 0x1E, CHR 0x1F, CHR 0x20, CHR 0x85, CHR 0xA0]"

definition is_space :: "char \<Rightarrow> bool" where
  "is_space c = (c \<in> set space_chars)"

definition digit_char :: "nat \<Rightarrow> char" where
  "digit_char d = digit_chars ! d"

fun digits10 :: "nat \<Rightarrow> string" where
  "digits10 n = (if n < 10 then [digit_char n] else digits10 (n div 10) @ [digit_char (n mod 10)])"

declare digits10.simps [simp del]

text \<open>\<^verbatim>\<open>str(i)\<close> for an integer\<close>

definition py_str_int :: "int \<Rightarrow> string" where
  "py_str_int i = (if i < 0 then CHR ''-'' # digits10 (nat (- i)) else digits10 (nat i))"

text \<open>The formats \<^verbatim>\<open>%02d\<close>, \<^verbatim>\<open>%04d\<close> and \<^verbatim>\<open>%06d\<close> of a natural number.\<close>

definition zero_pad :: "nat \<Rightarrow> nat \<Rightarrow> string" where
  "zero_pad width n = replicate (width - length (digits10 n)) CHR ''0'' @ digits10 n"

text \<open>
  \<^verbatim>\<open>xs[start:end]\<close>: a negative bound counts from the end, and both bounds are clipped to
  the list.
\<close>

definition py_slice :: "'a list \<Rightarrow> int \<Rightarrow> int \<Rightarrow> 'a list" where
  "py_slice xs start end =
     (let n = int (length xs);
          lo = (if start < 0 then max (start + n) 0 else min start n);
          hi = (if end < 0 then max (end + n) 0 else min end n)
      in take (nat (hi - lo)) (drop (nat lo) xs))"

text \<open>\<^verbatim>\<open>range(n)\<close>\<close>

definition py_range :: "int \<Rightarrow> int list" where
  "py_range n = map int [0..<nat n]"

text \<open>\<^verbatim>\<open>if v:\<close> for a value that is \<^verbatim>\<open>None\<close> or a string\<close>

definition truthy :: "string option \<Rightarrow> bool" where
  "truthy v = (case v of None \<Rightarrow> False | Some s \<Rightarrow> s \<noteq> [])"


subsection \<open>\<^verbatim>\<open>datetime\<close>\<close>

record datetime =
  year :: nat
  month :: nat
  day :: nat
  hour :: nat
  minute :: nat
  second :: nat
  microsecond :: nat

definition is_leap :: "nat \<Rightarrow> bool" where
  "is_leap y = (y mod 4 = 0 \<and> (y mod 100 \<noteq> 0 \<or> y mod 400 = 0))"

definition days_in_month :: "nat \<Rightarrow> nat \<Rightarrow> nat" where
  "days_in_month y m =
     (if m = 2 then (if is_leap y then 29 else 28)
      else if m = 4 \<or> m = 6 \<or> m = 9 \<or> m = 11 then 30 else 31)"

definition valid_date :: "nat \<Rightarrow> nat \<Rightarrow> nat \<Rightarrow> bool" where
  "valid_date y m d =
     (1 \<le> y \<and> y \<le> 9999 \<and> 1 \<le> m \<and> m \<le> 12 \<and> 1 \<le> d \<and> d \<le> days_in_month y m)"

definition valid_time :: "nat \<Rightarrow> nat \<Rightarrow> nat \<Rightarrow> bool" where
  "valid_time h mi s = (h < 24 \<and> mi < 60 \<and> s < 60)"

text \<open>
  The constructor \<^verbatim>\<open>datetime(y, m, d, H, M, S)\<close>: it raises \<^verbatim>\<open>ValueError\<close> (here \<open>None\<close>)
  when a field is out of range.
\<close>

definition datetime_new :: "nat \<Rightarrow> nat \<Rightarrow> nat \<Rightarrow> nat \<Rightarrow> nat \<Rightarrow> nat \<Rightarrow> datetime option" where
  "datetime_new y m d h mi s =
     (if valid_date y m d \<and> valid_time h mi s
      then Some \<lparr>year = y, month = m, day = d, hour = h, minute = mi, second = s,
                 microsecond = 0\<rparr>
      else None)"

text \<open>\<^verbatim>\<open>dt.isoformat()\<close>: the fraction is printed only when the microseconds are not zero.\<close>

definition isoformat :: "datetime \<Rightarrow> string" where
  "isoformat dt =
     zero_pad 4 (year dt) @ ''-'' @ zero_pad 2 (month dt) @ ''-'' @ zero_pad 2 (day dt) @ ''T'' @
     zero_pad 2 (hour dt) @ '':'' @ zero_pad 2 (minute dt) @ '':'' @ zero_pad 2 (second dt) @
     (if microsecond dt \<noteq> 0 then ''.'' @ zero_pad 6 (microsecond dt) else [])"


subsection \<open>\<^verbatim>\<open>datetime.strptime\<close>\<close>

text \<open>
  The library turns a format into a regular expression, matches it at the start of the
  string with backtracking, refuses a match that does not reach the end of the string, and
  hands the integers to the constructor; every failure is a \<^verbatim>\<open>ValueError\<close>, here \<open>None\<close>.
  A directive is modelled as the list of its matches in the order in which backtracking
  tries them, each with the value read and the rest of the input.
\<close>

type_synonym 'a parser = "string \<Rightarrow> ('a \<times> string) list"

text \<open>Two digits, the first within \<open>lo1..hi1\<close> and the second within \<open>lo2..hi2\<close>.\<close>

definition alt2 :: "nat \<Rightarrow> nat \<Rightarrow> nat \<Rightarrow> nat \<Rightarrow> nat parser" where
  "alt2 lo1 hi1 lo2 hi2 s =
     (case s of
        a # b # r \<Rightarrow>
          (case (digit_val a, digit_val b) of
             (Some x, Some y) \<Rightarrow>
               if lo1 \<le> x \<and> x \<le> hi1 \<and> lo2 \<le> y \<and> y \<le> hi2 then [(10 * x + y, r)] else []
           | _ \<Rightarrow> [])
      | _ \<Rightarrow> [])"

text \<open>One digit within \<open>lo..hi\<close>.\<close>

definition alt1 :: "nat \<Rightarrow> nat \<Rightarrow> nat parser" where
  "alt1 lo hi s =
     (case s of
        a # r \<Rightarrow>
          (case digit_val a of
             Some x \<Rightarrow> if lo \<le> x \<and> x \<le> hi then [(x, r)] else []
           | None \<Rightarrow> [])
      | [] \<Rightarrow> [])"

text \<open>A space and one digit within \<open>1..9\<close>, the last alternative of \<^verbatim>\<open>%d\<close>.\<close>

definition alt_space_digit :: "nat parser" where
  "alt_space_digit s = (case s of a # r \<Rightarrow> if a = CHR '' '' then alt1 1 9 r else [] | [] \<Rightarrow> [])"

text \<open>\<^verbatim>\<open>%Y\<close> is \<^verbatim>\<open>\d\d\d\d\<close>.\<close>

definition re_Y :: "nat parser" where
  "re_Y s =
     (case s of
        a # b # c # d # r \<Rightarrow>
          (case (digit_val a, digit_val b, digit_val c, digit_val d) of
             (Some w, Some x, Some y, Some z) \<Rightarrow> [(1000 * w + 100 * x + 10 * y + z, r)]
           | _ \<Rightarrow> [])
      | _ \<Rightarrow> [])"

text \<open>\<^verbatim>\<open>%m\<close> is \<^verbatim>\<open>1[0-2]|0[1-9]|[1-9]\<close>.\<close>

definition re_m :: "nat parser" where
  "re_m s = alt2 1 1 0 2 s @ alt2 0 0 1 9 s @ alt1 1 9 s"

text \<open>\<^verbatim>\<open>%d\<close> is \<^verbatim>\<open>3[0-1]|[1-2]\d|0[1-9]|[1-9]| [1-9]\<close>.\<close>

definition re_d :: "nat parser" where
  "re_d s = alt2 3 3 0 1 s @ alt2 1 2 0 9 s @ alt2 0 0 1 9 s @ alt1 1 9 s @ alt_space_digit s"

text \<open>\<^verbatim>\<open>%H\<close> is \<^verbatim>\<open>2[0-3]|[0-1]\d|\d\<close>.\<close>

definition re_H :: "nat parser" where
  "re_H s = alt2 2 2 0 3 s @ alt2 0 1 0 9 s @ alt1 0 9 s"

text \<open>\<^verbatim>\<open>%M\<close> is \<^verbatim>\<open>[0-5]\d|\d\<close>.\<close>

definition re_M :: "nat parser" where
  "re_M s = alt2 0 5 0 9 s @ alt1 0 9 s"

text \<open>\<^verbatim>\<open>%S\<close> is \<^verbatim>\<open>6[0-1]|[0-5]\d|\d\<close>.\<close>

definition re_S :: "nat parser" where
  "re_S s = alt2 6 6 0 1 s @ alt2 0 5 0 9 s @ alt1 0 9 s"

text \<open>A literal character of the format.\<close>

definition re_lit :: "char \<Rightarrow> string \<Rightarrow> string list" where
  "re_lit c s = (case s of a # r \<Rightarrow> if a = c then [r] else [] | [] \<Rightarrow> [])"

text \<open>White space in the format is \<^verbatim>\<open>\s+\<close>: greedy, so the longest run is tried first.\<close>

fun re_spaces1 :: "string \<Rightarrow> string list" where
  "re_spaces1 [] = []"
| "re_spaces1 (c # s) = (if is_space c then re_spaces1 s @ [s] else [])"

definition strptime_Ymd :: "string \<Rightarrow> datetime option" where
  "strptime_Ymd s =
     (case [(y, m, d, r6).
              (y, r1) \<leftarrow> re_Y s, r2 \<leftarrow> re_lit CHR ''-'' r1,
              (m, r3) \<leftarrow> re_m r2, r4 \<leftarrow> re_lit CHR ''-'' r3,
              (d, r6) \<leftarrow> re_d r4] of
        [] \<Rightarrow> None
      | (y, m, d, r) # _ \<Rightarrow> if r \<noteq> [] then None else datetime_new y m d 0 0 0)"

definition strptime_Ymd_HMS :: "string \<Rightarrow> datetime option" where
  "strptime_Ymd_HMS s =
     (case [(y, m, d, h, mi, sec, r11).
              (y, r1) \<leftarrow> re_Y s, r2 \<leftarrow> re_lit CHR ''-'' r1,
              (m, r3) \<leftarrow> re_m r2, r4 \<leftarrow> re_lit CHR ''-'' r3,
              (d, r5) \<leftarrow> re_d r4, r6 \<leftarrow> re_spaces1 r5,
              (h, r7) \<leftarrow> re_H r6, r8 \<leftarrow> re_lit CHR '':'' r7,
              (mi, r9) \<leftarrow> re_M r8, r10 \<leftarrow> re_lit CHR '':'' r9,
              (sec, r11) \<leftarrow> re_S r10] of
        [] \<Rightarrow> None
      | (y, m, d, h, mi, sec, r) # _ \<Rightarrow>
          if r \<noteq> [] then None else datetime_new y m d h mi sec)"


subsection \<open>The two regular expressions\<close>

text \<open>
  A pattern is a sequence of items: a character class, how often it repeats, and whether
  the characters it consumes belong to group 1. Both patterns are compiled with
  \<^verbatim>\<open>re.IGNORECASE\<close>, so a literal matches a character with the same lower-case form.
\<close>

datatype atom = Digit | Space | Lit char | NotLit char

datatype quant = Once | Star | Plus

type_synonym item = "atom \<times> quant \<times> bool"

fun atom_ok :: "atom \<Rightarrow> char \<Rightarrow> bool" where
  "atom_ok Digit c = is_digit c"
| "atom_ok Space c = is_space c"
| "atom_ok (Lit p) c = (py_lower_char c = py_lower_char p)"
| "atom_ok (NotLit p) c = (py_lower_char c \<noteq> py_lower_char p)"

definition keep :: "bool \<Rightarrow> char \<Rightarrow> string \<times> string \<Rightarrow> string \<times> string" where
  "keep g c r = (if g then (c # fst r, snd r) else r)"

text \<open>
  \<open>re_match p s\<close> matches \<open>p\<close> at the start of \<open>s\<close> and returns group 1 and the input left
  over. A repetition is greedy: one more character is tried before the rest of the pattern.
\<close>

fun re_match :: "item list \<Rightarrow> string \<Rightarrow> (string \<times> string) option" where
  "re_match [] s = Some ([], s)"
| "re_match ((a, Once, g) # ps) [] = None"
| "re_match ((a, Once, g) # ps) (c # s) =
     (if atom_ok a c then map_option (keep g c) (re_match ps s) else None)"
| "re_match ((a, Star, g) # ps) [] = re_match ps []"
| "re_match ((a, Star, g) # ps) (c # s) =
     (if atom_ok a c
      then (case re_match ((a, Star, g) # ps) s of
              Some r \<Rightarrow> Some (keep g c r)
            | None \<Rightarrow> re_match ps (c # s))
      else re_match ps (c # s))"
| "re_match ((a, Plus, g) # ps) [] = None"
| "re_match ((a, Plus, g) # ps) (c # s) =
     (if atom_ok a c then map_option (keep g c) (re_match ((a, Star, g) # ps) s) else None)"

text \<open>\<^verbatim>\<open>regex.search(content)\<close> followed by \<^verbatim>\<open>match.group(1)\<close>: the leftmost match.\<close>

fun re_search :: "item list \<Rightarrow> string \<Rightarrow> string option" where
  "re_search p [] = map_option fst (re_match p [])"
| "re_search p (c # s) =
     (case re_match p (c # s) of Some r \<Rightarrow> Some (fst r) | None \<Rightarrow> re_search p s)"

definition lits :: "string \<Rightarrow> item list" where
  "lits s = map (\<lambda>c. (Lit c, Once, False)) s"

text \<open>\<^verbatim>\<open>'creationDate'\s*=>\s*'([^']+)'\<close>\<close>

definition creation_date_regex :: "item list" where
  "creation_date_regex =
     lits (CHR 0x27 # ''creationDate'' @ [CHR 0x27]) @ [(Space, Star, False)] @ lits ''=>'' @
     [(Space, Star, False)] @ lits [CHR 0x27] @ [(NotLit CHR 0x27, Plus, True)] @
     lits [CHR 0x27]"

text \<open>\<^verbatim>\<open>(\d{4}-\d{2}-\d{2})\s+by\<close>\<close>

definition content_date_regex :: "item list" where
  "content_date_regex =
     [(Digit, Once, True), (Digit, Once, True), (Digit, Once, True), (Digit, Once, True),
      (Lit CHR ''-'', Once, True), (Digit, Once, True), (Digit, Once, True),
      (Lit CHR ''-'', Once, True), (Digit, Once, True), (Digit, Once, True),
      (Space, Plus, False)] @ lits ''by''"



subsection \<open>The clock, the console and the files that are read\<close>

text \<open>
  \<open>clk k\<close> is what \<^verbatim>\<open>datetime.now()\<close> returns when it is called for the \<open>k\<close>-th time (from 0);
  the state counts the calls and collects the printed lines.
\<close>

type_synonym clock = "nat \<Rightarrow> datetime"

record world =
  ticks :: nat
  stdout :: "string list"

definition now :: "clock \<Rightarrow> world \<Rightarrow> datetime \<times> world" where
  "now clk w = (clk (ticks w), w\<lparr>ticks := Suc (ticks w)\<rparr>)"

definition print :: "string \<Rightarrow> world \<Rightarrow> world" where
  "print line w = w\<lparr>stdout := stdout w @ [line]\<rparr>"

text \<open>
  What the program can learn of a file: \<open>read_result\<close> is the outcome of opening it and
  reading it as text (an exception, or the decoded content), and \<open>mtime_result\<close> is the
  outcome of \<^verbatim>\<open>datetime.fromtimestamp(os.path.getmtime(path))\<close> (an exception, or the local
  time). The files do not change during a run, so both extractors read the same content.
\<close>

record file_info =
  read_result :: "py_exception + string"
  mtime_result :: "py_exception + datetime"

definition extract_creation_date :: "string \<Rightarrow> file_info \<Rightarrow> world \<Rightarrow> string option \<times> world" where
  "extract_creation_date file_path f w =
     (case read_result f of
        Inl e \<Rightarrow> (None, print (''Error reading file '' @ file_path @ '': '' @ exception_str e) w)
      | Inr content \<Rightarrow>
          (case re_search creation_date_regex content of
             Some date_str \<Rightarrow>
               (case strptime_Ymd_HMS date_str of
                  Some dt \<Rightarrow> (Some (isoformat (dt\<lparr>microsecond := 0\<rparr>)), w)
                | None \<Rightarrow> (None, w))
           | None \<Rightarrow> (None, w)))"

definition extract_date_from_content :: "string \<Rightarrow> file_info \<Rightarrow> world \<Rightarrow> string option \<times> world" where
  "extract_date_from_content file_path f w =
     (case read_result f of
        Inl e \<Rightarrow> (None, print (''Error reading file '' @ file_path @ '': '' @ exception_str e) w)
      | Inr content \<Rightarrow>
          (case re_search content_date_regex content of
             Some date_str \<Rightarrow>
               (case strptime_Ymd date_str of
                  Some dt \<Rightarrow>
                    (Some (isoformat (dt\<lparr>hour := 0, minute := 0, second := 0, microsecond := 0\<rparr>)), w)
                | None \<Rightarrow> (None, w))
           | None \<Rightarrow> (None, w)))"

definition get_file_last_modified :: "file_info \<Rightarrow> py_exception + string" where
  "get_file_last_modified f =
     (case mtime_result f of
        Inl e \<Rightarrow> Inl e
      | Inr dt \<Rightarrow> Inr (isoformat (dt\<lparr>microsecond := 0\<rparr>)))"

text \<open>
  The date resolution of \<^verbatim>\<open>main\<close> (the branches that assign \<^verbatim>\<open>entry["lastmod"]\<close>): \<open>file\<close>
  is the base name, \<open>file_path\<close> the path that the extractors open.
\<close>

definition resolve_lastmod ::
  "clock \<Rightarrow> string \<Rightarrow> string \<Rightarrow> file_info \<Rightarrow> world \<Rightarrow> py_exception + (string \<times> world)" where
  "resolve_lastmod clk file file_path f w =
     (let file_lower = py_lower file in
      if startswith file_lower ''index''
      then (let (t, w1) = now clk w in Inr (isoformat (t\<lparr>microsecond := 0\<rparr>), w1))
      else
        (let (content_date, w1) = extract_date_from_content file_path f w in
         if truthy content_date then Inr (the content_date, w1)
         else
           (let (creation, w2) = extract_creation_date file_path f w1 in
            if truthy creation then Inr (the creation, w2)
            else (case get_file_last_modified f of
                    Inl e \<Rightarrow> Inl e
                  | Inr v \<Rightarrow> Inr (v, w2)))))"


subsection \<open>URLs and documents\<close>

text \<open>
  \<open>rel_path\<close> is \<^verbatim>\<open>os.path.relpath(file_path, root_directory)\<close>: for a file found by the walk
  it is the names from the root to the file joined by \<^verbatim>\<open>os.sep\<close>, here \<open>sep\<close>.
\<close>

definition generate_url :: "char \<Rightarrow> string \<Rightarrow> string \<Rightarrow> string" where
  "generate_url sep rel_path domain =
     (let rel_url = py_replace rel_path sep CHR ''/'';
          domain = (if endswith domain ''/'' then butlast domain else domain)
      in domain @ ''/'' @ rel_url)"

text \<open>An entry is a dictionary with the key \<^verbatim>\<open>loc\<close> and, once resolved, the key \<^verbatim>\<open>lastmod\<close>.\<close>

record url_entry =
  loc :: string
  lastmod :: "string option"

text \<open>An element of \<^verbatim>\<open>xml.etree.ElementTree\<close>: tag, attributes, text and children.\<close>

datatype xml = Element (tag: string) (attrib: "(string \<times> string) list")
  (text_of: "string option") (children: "xml list")

definition sitemap_ns :: string where
  "sitemap_ns = ''http://www.sitemaps.org/schemas/sitemap/0.9''"



text \<open>\<^verbatim>\<open>os.path.join(a, b)\<close> for two parts, as \<^verbatim>\<open>posixpath\<close> does it with the separator \<open>sep\<close>.\<close>

definition os_path_join :: "char \<Rightarrow> string \<Rightarrow> string \<Rightarrow> string" where
  "os_path_join sep a b =
     (if startswith b [sep] then b
      else if a = [] \<or> endswith a [sep] then a @ b
      else a @ [sep] @ b)"

text \<open>The location of a sitemap file in the index: \<^verbatim>\<open>f"{domain.rstrip('/')}/{output_dir.rstrip('/')}/{sitemap}"\<close>.\<close>

definition sitemap_loc :: "string \<Rightarrow> string \<Rightarrow> string \<Rightarrow> string" where
  "sitemap_loc domain output_dir sitemap =
     py_rstrip domain CHR ''/'' @ ''/'' @ py_rstrip output_dir CHR ''/'' @ ''/'' @ sitemap"

text \<open>The loop of \<^verbatim>\<open>generate_sitemap_index\<close>: the clock is read once for every file name.\<close>

fun sitemap_elems :: "clock \<Rightarrow> string \<Rightarrow> string \<Rightarrow> string list \<Rightarrow> world \<Rightarrow> xml list \<times> world" where
  "sitemap_elems clk domain output_dir [] w = ([], w)"
| "sitemap_elems clk domain output_dir (sitemap # rest) w =
     (let (t, w1) = now clk w;
          sm_elem = Element ''sitemap'' [] None
            [Element ''loc'' [] (Some (sitemap_loc domain output_dir sitemap)) [],
             Element ''lastmod'' [] (Some (isoformat (t\<lparr>microsecond := 0\<rparr>))) []];
          (elems, w2) = sitemap_elems clk domain output_dir rest w1
      in (sm_elem # elems, w2))"

definition generate_sitemap_index ::
  "clock \<Rightarrow> char \<Rightarrow> string list \<Rightarrow> string \<Rightarrow> string \<Rightarrow> world \<Rightarrow> (string \<times> xml) \<times> world" where
  "generate_sitemap_index clk sep sitemap_filenames domain output_dir w =
     (let (elems, w1) = sitemap_elems clk domain output_dir sitemap_filenames w;
          sitemapindex = Element ''sitemapindex'' [(''xmlns'', sitemap_ns)] None elems;
          index_file = os_path_join sep output_dir ''sitemap_index.xml''
      in ((index_file, sitemapindex), w1))"


subsection \<open>The walk\<close>

text \<open>
  A directory is the list of its entries in the order in which the system lists them: a
  \<open>FileEntry\<close> is an entry that \<^verbatim>\<open>os.walk\<close> reports among \<^verbatim>\<open>files\<close>, a \<open>DirEntry\<close> a directory
  that it descends into. \<open>os_walk sep dirpath names es\<close> lists, top-down, every directory below
  \<open>dirpath\<close> as its path, the names that lead to it from the root, and its files.
\<close>

datatype fs_entry = FileEntry string file_info | DirEntry string "fs_entry list"

fun nondirs :: "fs_entry list \<Rightarrow> (string \<times> file_info) list" where
  "nondirs [] = []"
| "nondirs (FileEntry name f # es) = (name, f) # nondirs es"
| "nondirs (DirEntry name sub # es) = nondirs es"

fun os_walk ::
    "char \<Rightarrow> string \<Rightarrow> string list \<Rightarrow> fs_entry list \<Rightarrow>
      (string \<times> string list \<times> (string \<times> file_info) list) list"
  and walk_dirs ::
    "char \<Rightarrow> string \<Rightarrow> string list \<Rightarrow> fs_entry list \<Rightarrow>
      (string \<times> string list \<times> (string \<times> file_info) list) list" where
  "os_walk sep dirpath names es = (dirpath, names, nondirs es) # walk_dirs sep dirpath names es"
| "walk_dirs sep dirpath names [] = []"
| "walk_dirs sep dirpath names (FileEntry name f # es) = walk_dirs sep dirpath names es"
| "walk_dirs sep dirpath names (DirEntry name sub # es) =
     os_walk sep (os_path_join sep dirpath name) (names @ [name]) sub @ walk_dirs sep dirpath names es"


subsection \<open>\<^verbatim>\<open>main\<close>\<close>

text \<open>
  The inner loop over the files of one directory. The state is the list of entries, the
  counter \<^verbatim>\<open>total_files\<close> and the world; an exception of the date resolution ends the run.
\<close>

type_synonym scan_state = "url_entry list \<times> int \<times> world"

fun scan_files ::
    "clock \<Rightarrow> char \<Rightarrow> string \<Rightarrow> string \<Rightarrow> string list \<Rightarrow> (string \<times> file_info) list \<Rightarrow>
      scan_state \<Rightarrow> py_exception + scan_state" where
  "scan_files clk sep domain subdir names [] st = Inr st"
| "scan_files clk sep domain subdir names ((file, f) # files) (url_entries, total_files, w) =
     (if endswith (py_lower file) ''.html''
      then
        (let file_path = os_path_join sep subdir file;
             url = generate_url sep (py_join sep (names @ [file])) domain
         in if py_in ''/user/'' (py_lower url)
            then scan_files clk sep domain subdir names files (url_entries, total_files, w)
            else
              (case resolve_lastmod clk file file_path f w of
                 Inl e \<Rightarrow> Inl e
               | Inr (v, w1) \<Rightarrow>
                   scan_files clk sep domain subdir names files
                     (url_entries @ [\<lparr>loc = url, lastmod = Some v\<rparr>], total_files + 1, w1)))
      else scan_files clk sep domain subdir names files (url_entries, total_files, w))"

text \<open>The outer loop over the directories of the walk.\<close>

fun scan_walk ::
    "clock \<Rightarrow> char \<Rightarrow> string \<Rightarrow> (string \<times> string list \<times> (string \<times> file_info) list) list \<Rightarrow>
      scan_state \<Rightarrow> py_exception + scan_state" where
  "scan_walk clk sep domain [] st = Inr st"
| "scan_walk clk sep domain ((subdir, names, files) # rest) st =
     (case scan_files clk sep domain subdir names files st of
        Inl e \<Rightarrow> Inl e
      | Inr st1 \<Rightarrow> scan_walk clk sep domain rest st1)"

text \<open>The number of sitemap files; \<^verbatim>\<open>--max-url 0\<close> raises \<^verbatim>\<open>ZeroDivisionError\<close>.\<close>

definition num_sitemaps :: "int \<Rightarrow> int \<Rightarrow> py_exception + int" where
  "num_sitemaps total_urls max_url =
     (if max_url = 0 then Inl ZeroDivisionError
      else Inr ((total_urls div max_url) + (if total_urls mod max_url \<noteq> 0 then 1 else 0)))"

definition sitemap_filename :: "int \<Rightarrow> string" where
  "sitemap_filename i = ''sitemap_'' @ py_str_int (i + 1) @ ''.xml''"

text \<open>
  The pagination loop of \<^verbatim>\<open>main\<close>: for every \<open>i\<close> of \<^verbatim>\<open>range(num_sitemaps)\<close> the file name and
  the slice of entries that goes into it.
\<close>

definition sitemap_pages :: "'a list \<Rightarrow> int \<Rightarrow> int \<Rightarrow> (string \<times> 'a list) list" where
  "sitemap_pages url_entries max_url n =
     map (\<lambda>i. (sitemap_filename i, py_slice url_entries (i * max_url) (i * max_url + max_url)))
       (py_range n)"

definition paginate :: "'a list \<Rightarrow> int \<Rightarrow> py_exception + (string \<times> 'a list) list" where
  "paginate url_entries max_url =
     (case num_sitemaps (int (length url_entries)) max_url of
        Inl e \<Rightarrow> Inl e
      | Inr n \<Rightarrow> Inr (sitemap_pages url_entries max_url n))"


text \<open>What a run leaves behind: the sitemap files in the order written, the index, the state.\<close>

record run =
  sitemap_files :: "(string \<times> xml) list"
  index_file :: "string \<times> xml"
  final :: world





section \<open>Notions used in the statements\<close>

text \<open>
  \<open>same_letters s low up\<close>: the string \<open>s\<close> is \<open>low\<close> up to the case of its letters, \<open>up\<close> being
  \<open>low\<close> in capitals.
\<close>

definition same_letters :: "string \<Rightarrow> string \<Rightarrow> string \<Rightarrow> bool" where
  "same_letters s low up = list_all2 (\<lambda>c (l, u). c = l \<or> c = u) s (zip low up)"

text \<open>A base name that starts with \<^verbatim>\<open>index\<close>, one that ends in \<^verbatim>\<open>.html\<close>, in any case.\<close>

definition index_name :: "string \<Rightarrow> bool" where
  "index_name file = same_letters (take 5 file) ''index'' ''INDEX''"

definition html_name :: "string \<Rightarrow> bool" where
  "html_name file = (5 \<le> length file \<and> same_letters (drop (length file - 5) file) ''.html'' ''.HTML'')"

text \<open>A URL that contains \<^verbatim>\<open>/user/\<close> in any case, at some position \<open>k\<close>.\<close>

definition user_url :: "string \<Rightarrow> bool" where
  "user_url url = list_ex (\<lambda>k. same_letters (take 6 (drop k url)) ''/user/'' ''/USER/'') [0..<length url]"

text \<open>The texts of the children of \<open>e\<close> that have the tag \<open>t\<close>, and of its grandchildren.\<close>

definition child_texts :: "string \<Rightarrow> xml \<Rightarrow> string list" where
  "child_texts t e = List.map_filter (\<lambda>c. if tag c = t then text_of c else None) (children e)"

definition texts_at :: "string \<Rightarrow> xml \<Rightarrow> string list" where
  "texts_at t doc = concat (map (child_texts t) (children doc))"

text \<open>The character at position \<open>p\<close> of \<open>s\<close> is a slash next to another slash.\<close>

definition double_slash_at :: "string \<Rightarrow> nat \<Rightarrow> bool" where
  "double_slash_at s p =
     (p < length s \<and> s ! p = CHR ''/'' \<and>
      ((0 < p \<and> s ! (p - 1) = CHR ''/'') \<or> (Suc p < length s \<and> s ! Suc p = CHR ''/'')))"

text \<open>
  A clock whose first reading is the last microsecond of a day; every later reading falls
  on the next day.
\<close>

definition midnight_clock :: clock where
  "midnight_clock k =
     (if k = 0
      then \<lparr>year = 2024, month = 3, day = 9, hour = 23, minute = 59, second = 59,
             microsecond = 999999\<rparr>
      else \<lparr>year = 2024, month = 3, day = 10, hour = 0, minute = 0, second = 0,
             microsecond = k\<rparr>)"

text \<open>
  \<open>shape s t\<close>: the string \<open>s\<close> fits the template \<open>t\<close>, where a \<^verbatim>\<open>d\<close> of the template stands for a
  digit and every other character for itself.
\<close>

definition shape :: "string \<Rightarrow> string \<Rightarrow> bool" where
  "shape s t = list_all2 (\<lambda>c k. if k = CHR ''d'' then is_digit c else c = k) s t"

text \<open>
  A match of the content-date pattern at the start of \<open>s\<close>: a date \<^verbatim>\<open>YYYY-MM-DD\<close>, white space,
  and \<^verbatim>\<open>by\<close> in any case.
\<close>

definition content_date_here :: "string \<Rightarrow> bool" where
  "content_date_here s =
     (shape (take 10 s) ''dddd-dd-dd'' \<and>
      (let r = drop 10 s
       in r \<noteq> [] \<and> is_space (hd r) \<and> same_letters (take 2 (dropWhile is_space r)) ''by'' ''BY''))"

text \<open>
  A match of the creation-date pattern at the start of \<open>s\<close>, with the value it captures: the
  key \<^verbatim>\<open>'creationDate'\<close> in any case, \<^verbatim>\<open>=>\<close> with optional white space around it, and a
  non-empty value without apostrophe between apostrophes.
\<close>

definition creation_here :: "string \<Rightarrow> string option" where
  "creation_here s =
     (if same_letters (take 14 s) (CHR 0x27 # ''creationdate'' @ [CHR 0x27])
           (CHR 0x27 # ''CREATIONDATE'' @ [CHR 0x27])
      then (let r1 = dropWhile is_space (drop 14 s)
            in if take 2 r1 = ''=>''
               then (case dropWhile is_space (drop 2 r1) of
                       q # c # cs \<Rightarrow>
                         if q = CHR 0x27 \<and> c \<noteq> CHR 0x27
                         then (case dropWhile (\<lambda>x. x \<noteq> CHR 0x27) cs of
                                 [] \<Rightarrow> None
                               | x # r \<Rightarrow> Some (c # takeWhile (\<lambda>x. x \<noteq> CHR 0x27) cs))
                         else None
                     | _ \<Rightarrow> None)
               else None)
      else None)"

text \<open>The number that a string of digits denotes.\<close>

definition num :: "string \<Rightarrow> nat" where
  "num s = foldl (\<lambda>n c. 10 * n + (case digit_val c of Some v \<Rightarrow> v | None \<Rightarrow> 0)) 0 s"

text \<open>The year, month and day of a string \<^verbatim>\<open>YYYY-MM-DD...\<close>, and the hour, minute and second of
  a string \<^verbatim>\<open>YYYY-MM-DD HH:MM:SS\<close>.\<close>

definition date_fields :: "string \<Rightarrow> nat \<times> nat \<times> nat" where
  "date_fields d = (num (take 4 d), num (take 2 (drop 5 d)), num (take 2 (drop 8 d)))"


text \<open>
  The date captured by the first match of the content-date pattern in a content, and the
  value captured by the first match of the creation-date pattern: the match at the least
  position.
\<close>

definition first_content_date :: "string \<Rightarrow> string option" where
  "first_content_date content =
     map_option (\<lambda>i. take 10 (drop i content))
       (find (\<lambda>i. content_date_here (drop i content)) [0..<Suc (length content)])"

definition first_creation_value :: "string \<Rightarrow> string option" where
  "first_creation_value content =
     (case find (\<lambda>i. creation_here (drop i content) \<noteq> None) [0..<Suc (length content)] of
        None \<Rightarrow> None
      | Some i \<Rightarrow> creation_here (drop i content))"



text \<open>
  The second and the third strategy find nothing: there is no match, or the first match
  is not a calendar date, or does not parse.
\<close>

definition no_content_date :: "string \<Rightarrow> bool" where
  "no_content_date content =
     (case first_content_date content of
        None \<Rightarrow> True
      | Some d \<Rightarrow> (case date_fields d of (y, m, dd) \<Rightarrow> \<not> valid_date y m dd))"

definition no_creation_date :: "string \<Rightarrow> bool" where
  "no_creation_date content =
     (case first_creation_value content of
        None \<Rightarrow> True
      | Some v \<Rightarrow> strptime_Ymd_HMS v = None)"

text \<open>A dangling link: it can neither be opened nor asked for its modification time.\<close>

definition dangling :: file_info where
  "dangling = \<lparr>read_result = Inl (OSError ''[Errno 2] No such file or directory''),
               mtime_result = Inl (OSError ''[Errno 2] No such file or directory'')\<rparr>"

definition dangling_site :: "fs_entry list" where
  "dangling_site = [FileEntry ''a.html'' dangling]"




definition noon :: datetime where
  "noon = \<lparr>year = 2024, month = 3, day = 9, hour = 12, minute = 0, second = 0, microsecond = 0\<rparr>"

text \<open>A file that cannot be read, and a small site.\<close>

definition unread :: file_info where
  "unread = \<lparr>read_result = Inl (OSError ''denied''), mtime_result = Inr noon\<rparr>"

definition site :: "fs_entry list" where
  "site = [FileEntry ''a.html'' unread,
           DirEntry ''User'' [FileEntry ''Profile.html'' unread],
           FileEntry ''notes.txt'' unread]"

definition start :: world where
  "start = \<lparr>ticks = 0, stdout = []\<rparr>"




section \<open>Properties\<close>

subsection \<open>Letters\<close>

lemmas lower_defs = py_lower_char_def upper_chars_def lower_chars_def

lemma py_lower_char_letter:
  "py_lower_char c = CHR ''a'' \<longleftrightarrow> c = CHR ''a'' \<or> c = CHR ''A''"
  "py_lower_char c = CHR ''b'' \<longleftrightarrow> c = CHR ''b'' \<or> c = CHR ''B''"
  "py_lower_char c = CHR ''c'' \<longleftrightarrow> c = CHR ''c'' \<or> c = CHR ''C''"
  "py_lower_char c = CHR ''d'' \<longleftrightarrow> c = CHR ''d'' \<or> c = CHR ''D''"
  "py_lower_char c = CHR ''e'' \<longleftrightarrow> c = CHR ''e'' \<or> c = CHR ''E''"
  "py_lower_char c = CHR ''h'' \<longleftrightarrow> c = CHR ''h'' \<or> c = CHR ''H''"
  "py_lower_char c = CHR ''i'' \<longleftrightarrow> c = CHR ''i'' \<or> c = CHR ''I''"
  "py_lower_char c = CHR ''l'' \<longleftrightarrow> c = CHR ''l'' \<or> c = CHR ''L''"
  "py_lower_char c = CHR ''m'' \<longleftrightarrow> c = CHR ''m'' \<or> c = CHR ''M''"
  "py_lower_char c = CHR ''n'' \<longleftrightarrow> c = CHR ''n'' \<or> c = CHR ''N''"
  "py_lower_char c = CHR ''o'' \<longleftrightarrow> c = CHR ''o'' \<or> c = CHR ''O''"
  "py_lower_char c = CHR ''r'' \<longleftrightarrow> c = CHR ''r'' \<or> c = CHR ''R''"
  "py_lower_char c = CHR ''s'' \<longleftrightarrow> c = CHR ''s'' \<or> c = CHR ''S''"
  "py_lower_char c = CHR ''t'' \<longleftrightarrow> c = CHR ''t'' \<or> c = CHR ''T''"
  "py_lower_char c = CHR ''u'' \<longleftrightarrow> c = CHR ''u'' \<or> c = CHR ''U''"
  "py_lower_char c = CHR ''x'' \<longleftrightarrow> c = CHR ''x'' \<or> c = CHR ''X''"
  "py_lower_char c = CHR ''y'' \<longleftrightarrow> c = CHR ''y'' \<or> c = CHR ''Y''"
  by (simp_all add: lower_defs)

lemma py_lower_char_other:
  "py_lower_char c = CHR ''/'' \<longleftrightarrow> c = CHR ''/''"
  "py_lower_char c = CHR ''.'' \<longleftrightarrow> c = CHR ''.''"
  "py_lower_char c = CHR ''-'' \<longleftrightarrow> c = CHR ''-''"
  "py_lower_char c = CHR ''='' \<longleftrightarrow> c = CHR ''=''"
  "py_lower_char c = CHR ''>'' \<longleftrightarrow> c = CHR ''>''"
  "py_lower_char c = CHR 0x27 \<longleftrightarrow> c = CHR 0x27"
  by (simp_all add: lower_defs)

lemma same_letters_lower:
  assumes "list_all2 (\<lambda>l u. \<forall>c. py_lower_char c = l \<longleftrightarrow> c = l \<or> c = u) low up"
  shows "same_letters s low up \<longleftrightarrow> map py_lower_char s = low"
  using assms
proof (induction low up arbitrary: s rule: list_all2_induct)
  case Nil
  show ?case by (simp add: same_letters_def)
next
  case (Cons l low u up)
  show ?case
  proof (cases s)
    case Nil
    then show ?thesis by (simp add: same_letters_def)
  next
    case (Cons c cs)
    with Cons.IH [of cs] Cons.hyps show ?thesis
      by (auto simp: same_letters_def)
  qed
qed

lemma index_name_iff: "startswith (py_lower file) ''index'' \<longleftrightarrow> index_name file"
proof -
  have "startswith (py_lower file) ''index'' \<longleftrightarrow> map py_lower_char (take 5 file) = ''index''"
    by (simp add: startswith_def py_lower_def take_map eval_nat_numeral)
  also have "\<dots> \<longleftrightarrow> same_letters (take 5 file) ''index'' ''INDEX''"
    by (rule same_letters_lower [symmetric]) (simp add: py_lower_char_letter)
  finally show ?thesis by (simp add: index_name_def)
qed

lemma html_name_iff: "endswith (py_lower file) ''.html'' \<longleftrightarrow> html_name file"
proof -
  have "endswith (py_lower file) ''.html'' \<longleftrightarrow>
      5 \<le> length file \<and> map py_lower_char (drop (length file - 5) file) = ''.html''"
    by (simp add: endswith_def py_lower_def drop_map eval_nat_numeral)
  also have "map py_lower_char (drop (length file - 5) file) = ''.html'' \<longleftrightarrow>
      same_letters (drop (length file - 5) file) ''.html'' ''.HTML''"
    by (rule same_letters_lower [symmetric])
      (simp add: py_lower_char_letter py_lower_char_other)
  finally show ?thesis by (simp add: html_name_def)
qed

lemma py_in_iff: "py_in needle hay \<longleftrightarrow> (\<exists>k \<le> length hay. take (length needle) (drop k hay) = needle)"
proof (induction hay)
  case Nil
  show ?case by auto
next
  case (Cons c cs)
  have "(\<exists>k \<le> length (c # cs). take (length needle) (drop k (c # cs)) = needle) \<longleftrightarrow>
      take (length needle) (c # cs) = needle \<or>
      (\<exists>k \<le> length cs. take (length needle) (drop k cs) = needle)"
    (is "?L \<longleftrightarrow> ?A \<or> ?B")
  proof
    assume ?L
    then obtain k where k: "k \<le> length (c # cs)" "take (length needle) (drop k (c # cs)) = needle"
      by blast
    show "?A \<or> ?B"
    proof (cases k)
      case 0
      with k show ?thesis by simp
    next
      case (Suc j)
      with k show ?thesis by auto
    qed
  next
    assume "?A \<or> ?B"
    then show ?L
    proof
      assume ?A
      then show ?L by (intro exI [of _ 0]) simp
    next
      assume ?B
      then obtain k where "k \<le> length cs" "take (length needle) (drop k cs) = needle" by blast
      then show ?L by (intro exI [of _ "Suc k"]) simp
    qed
  qed
  with Cons show ?case by (simp add: startswith_def)
qed

lemma user_url_iff: "py_in ''/user/'' (py_lower url) \<longleftrightarrow> user_url url"
proof -
  have eq: "take 6 (drop k (map py_lower_char url)) = ''/user/'' \<longleftrightarrow>
      same_letters (take 6 (drop k url)) ''/user/'' ''/USER/''" for k
  proof -
    have "take 6 (drop k (map py_lower_char url)) = map py_lower_char (take 6 (drop k url))"
      by (simp add: take_map drop_map)
    moreover have "map py_lower_char (take 6 (drop k url)) = ''/user/'' \<longleftrightarrow>
        same_letters (take 6 (drop k url)) ''/user/'' ''/USER/''"
      by (rule same_letters_lower [symmetric])
        (simp add: py_lower_char_letter py_lower_char_other)
    ultimately show ?thesis by simp
  qed
  have "py_in ''/user/'' (py_lower url) \<longleftrightarrow>
      (\<exists>k \<le> length url. take 6 (drop k (map py_lower_char url)) = ''/user/'')"
    by (simp add: py_in_iff py_lower_def eval_nat_numeral)
  also have "\<dots> \<longleftrightarrow> (\<exists>k \<le> length url. same_letters (take 6 (drop k url)) ''/user/'' ''/USER/'')"
    by (simp only: eq)
  also have "\<dots> \<longleftrightarrow> (\<exists>k < length url. same_letters (take 6 (drop k url)) ''/user/'' ''/USER/'')"
  proof -
    have "\<not> same_letters (take 6 (drop (length url) url)) ''/user/'' ''/USER/''"
      by (simp add: same_letters_def)
    then show ?thesis
      by (metis le_neq_implies_less less_imp_le_nat)
  qed
  finally show ?thesis
    by (auto simp: user_url_def list_ex_iff)
qed


subsection \<open>Pagination\<close>

lemma py_slice_nonneg:
  "0 \<le> a \<Longrightarrow> 0 \<le> m \<Longrightarrow> py_slice xs a (a + m) = take (nat m) (drop (nat a) xs)"
  unfolding py_slice_def Let_def
  by (auto simp: min_def)

lemma concat_chunks:
  "concat (map (\<lambda>k. take m (drop (k * m) xs)) [0..<n]) = take (n * m) xs"
proof (induction n)
  case 0
  then show ?case by simp
next
  case (Suc n)
  have "take (n * m + m) xs = take (n * m) xs @ take m (drop (n * m) xs)"
    by (rule take_add)
  with Suc show ?case by (simp add: add.commute)
qed

lemma ceiling_int_div:
  fixes a b :: int
  assumes "0 < b"
  shows "\<lceil>real_of_int a / real_of_int b\<rceil> = a div b + (if a mod b \<noteq> 0 then 1 else 0)"
proof -
  have "\<lceil>real_of_int a / real_of_int b\<rceil> = - (- a div b)"
    by (rule ceiling_divide_eq_div)
  also have "\<dots> = a div b + (if a mod b \<noteq> 0 then 1 else 0)"
    using assms by (simp add: zdiv_zminus1_eq_if)
  finally show ?thesis .
qed

lemma num_sitemaps_ceiling:
  assumes "1 \<le> M"
  shows "num_sitemaps (int N) M = Inr \<lceil>real N / real_of_int M\<rceil>"
proof -
  have "\<lceil>real_of_int (int N) / real_of_int M\<rceil>
          = int N div M + (if int N mod M \<noteq> 0 then 1 else 0)"
    using assms by (intro ceiling_int_div) simp
  with assms show ?thesis
    by (simp add: num_sitemaps_def)
qed

lemma num_sitemaps_cover:
  assumes "1 \<le> M" and "num_sitemaps (int N) M = Inr n"
  shows "0 \<le> n" and "int N \<le> n * M" and "(n - 1) * M < int N \<or> N = 0"
proof -
  define q where "q = int N div M"
  define r where "r = int N mod M"
  have N: "int N = q * M + r" by (simp add: q_def r_def)
  have r: "0 \<le> r" "r < M" using assms(1) by (simp_all add: r_def)
  have q: "0 \<le> q" using assms(1) by (simp add: q_def pos_imp_zdiv_nonneg_iff)
  have n: "n = q + (if r \<noteq> 0 then 1 else 0)"
    using assms by (simp add: num_sitemaps_def q_def r_def split: if_splits)
  show "0 \<le> n" using q n by simp
  show "int N \<le> n * M" using N r n by (simp add: algebra_simps)
  show "(n - 1) * M < int N \<or> N = 0"
  proof (cases "r = 0")
    case False
    then show ?thesis using N r n by (simp add: algebra_simps)
  next
    case True
    show ?thesis
    proof (cases "N = 0")
      case False
      then have "0 < q * M" using N True by simp
      with True n N assms(1) show ?thesis by (simp add: algebra_simps)
    qed simp
  qed
qed

lemmas paginate_eval = paginate_def sitemap_pages_def num_sitemaps_def py_range_def py_slice_def
  sitemap_filename_def py_str_int_def digits10.simps digit_char_def digit_chars_def upt_rec

text \<open>
  C1. For a maximum chunk size \<open>M \<ge> 1\<close> and a list of \<open>N\<close> entries the pagination loop does
  not fail and produces \<open>\<lceil>N / M\<rceil>\<close> chunks (none when \<open>N = 0\<close>). The \<open>k\<close>-th chunk (from 0) is
  named \<^verbatim>\<open>sitemap_<k+1>.xml\<close> and is the slice of the \<open>M\<close> entries from position \<open>k * M\<close> on: it
  is not empty and has at most \<open>M\<close> entries. The chunks concatenated in order are the list
  of entries.
\<close>

theorem paginate_chunks:
  assumes "1 \<le> M"
  shows "\<exists>chunks. paginate entries M = Inr chunks
     \<and> length chunks = nat \<lceil>real (length entries) / real_of_int M\<rceil>
     \<and> (length entries = 0 \<longrightarrow> chunks = [])
     \<and> (\<forall>k < length chunks.
            fst (chunks ! k) = ''sitemap_'' @ py_str_int (int k + 1) @ ''.xml''
          \<and> snd (chunks ! k) = take (nat M) (drop (k * nat M) entries)
          \<and> length (snd (chunks ! k)) \<le> nat M
          \<and> snd (chunks ! k) \<noteq> [])
     \<and> concat (map snd chunks) = entries"
proof -
  define n where "n = \<lceil>real (length entries) / real_of_int M\<rceil>"
  define chunks where "chunks = sitemap_pages entries M n"
  have ns: "num_sitemaps (int (length entries)) M = Inr n"
    unfolding n_def by (rule num_sitemaps_ceiling [OF assms])
  note cover = num_sitemaps_cover [OF assms ns]
  have run: "paginate entries M = Inr chunks"
    by (simp add: paginate_def ns chunks_def)
  have len: "length chunks = nat n"
    by (simp add: chunks_def sitemap_pages_def py_range_def)
  have slice: "snd (chunks ! k) = take (nat M) (drop (k * nat M) entries)"
    and name: "fst (chunks ! k) = ''sitemap_'' @ py_str_int (int k + 1) @ ''.xml''"
    if "k < nat n" for k
  proof -
    have "chunks ! k = (sitemap_filename (int k),
        py_slice entries (int k * M) (int k * M + M))"
      using that by (simp add: chunks_def sitemap_pages_def py_range_def)
    moreover have "py_slice entries (int k * M) (int k * M + M)
        = take (nat M) (drop (nat (int k * M)) entries)"
      using assms by (intro py_slice_nonneg) simp_all
    moreover have "nat (int k * M) = k * nat M"
      by (simp add: nat_mult_distrib)
    ultimately show "snd (chunks ! k) = take (nat M) (drop (k * nat M) entries)"
      and "fst (chunks ! k) = ''sitemap_'' @ py_str_int (int k + 1) @ ''.xml''"
      by (simp_all add: sitemap_filename_def)
  qed
  have nonempty: "snd (chunks ! k) \<noteq> []" if "k < nat n" for k
  proof -
    from that have k: "int k \<le> n - 1" by simp
    then have "int k * M \<le> (n - 1) * M"
      using assms by (intro mult_right_mono) simp_all
    moreover from that cover(3) have "(n - 1) * M < int (length entries)"
      using n_def by auto
    ultimately have "int k * M < int (length entries)" by simp
    then have "int (k * nat M) < int (length entries)"
      using assms by simp
    then have "k * nat M < length entries" by linarith
    with assms show ?thesis by (simp add: slice [OF that])
  qed
  have cat: "concat (map snd chunks) = entries"
  proof -
    have "map snd chunks = map (\<lambda>k. take (nat M) (drop (k * nat M) entries)) [0..<nat n]"
      by (rule nth_equalityI) (simp_all add: len slice)
    then have "concat (map snd chunks) = take (nat n * nat M) entries"
      by (simp add: concat_chunks)
    moreover have "length entries \<le> nat n * nat M"
    proof -
      have "int (length entries) \<le> int (nat n * nat M)"
        using cover(1,2) assms by simp
      then show ?thesis by linarith
    qed
    ultimately show ?thesis by simp
  qed
  have empty: "length entries = 0 \<longrightarrow> chunks = []"
    using len by (auto simp: n_def)
  show ?thesis
    using run len slice name nonempty cat empty
    by (intro exI [of _ chunks]) (simp add: n_def)
qed

theorem paginate_chunks_witness:
  "(1::int) \<le> 2 \<and>
   (\<exists>chunks. paginate ''abcde'' 2 = Inr chunks \<and> length chunks = 3
      \<and> chunks = [(''sitemap_1.xml'', ''ab''), (''sitemap_2.xml'', ''cd''), (''sitemap_3.xml'', ''e'')]
      \<and> concat (map snd chunks) = ''abcde'')"
proof -
  have h: "(1::int) \<le> 2" by simp
  from paginate_chunks [OF h, of "''abcde''"]
  obtain chunks where c: "paginate ''abcde'' 2 = Inr chunks"
    and l: "length chunks = nat \<lceil>real (length ''abcde'') / real_of_int 2\<rceil>"
    and cat: "concat (map snd chunks) = ''abcde''"
    by blast
  have "chunks = [(''sitemap_1.xml'', ''ab''), (''sitemap_2.xml'', ''cd''), (''sitemap_3.xml'', ''e'')]"
    using c by (simp add: paginate_eval)
  moreover from this have "length chunks = 3" by simp
  ultimately show ?thesis using h c cat by simp
qed


subsection \<open>Locations\<close>

lemma py_replace_absent: "old \<notin> set s \<Longrightarrow> py_replace s old new = s"
  by (induction s) (auto simp: py_replace_def)

lemma py_replace_append: "py_replace (s @ t) old new = py_replace s old new @ py_replace t old new"
  by (simp add: py_replace_def)

lemma py_replace_join:
  "\<forall>name\<in>set names. sep \<notin> set name \<Longrightarrow> py_replace (py_join sep names) sep c = py_join c names"
proof (induction sep names rule: py_join.induct)
  case (1 sep)
  show ?case by (simp add: py_replace_def)
next
  case (2 sep p)
  then show ?case by (simp add: py_replace_absent)
next
  case (3 sep p q ps)
  then have "py_replace (py_join sep (q # ps)) sep c = py_join c (q # ps)"
    and "py_replace p sep c = p"
    by (simp_all add: py_replace_absent)
  moreover have "py_replace [sep] sep c = [c]"
    by (simp add: py_replace_def)
  ultimately show ?case
    using py_replace_append [of p "sep # py_join sep (q # ps)" sep c]
      py_replace_append [of "[sep]" "py_join sep (q # ps)" sep c]
    by simp
qed

text \<open>
  C8. The location of a file is the domain without one trailing slash, a slash, and the
  relative path with the separator replaced by a slash: a domain \<open>d/\<close> gives \<open>d\<close>, a domain
  without a trailing slash is kept. For names that do not contain the separator the
  relative path becomes the names joined by slashes.
\<close>

theorem generate_url_location:
  "generate_url sep rel_path (d @ ''/'') = d @ ''/'' @ py_replace rel_path sep CHR ''/''
   \<and> (\<not> endswith domain ''/'' \<longrightarrow>
        generate_url sep rel_path domain = domain @ ''/'' @ py_replace rel_path sep CHR ''/'')
   \<and> ((\<forall>name\<in>set names. sep \<notin> set name) \<longrightarrow>
        py_replace (py_join sep names) sep CHR ''/'' = py_join CHR ''/'' names)"
  by (simp add: generate_url_def endswith_def py_replace_join)

theorem generate_url_location_witness:
  "generate_url CHR ''/'' (py_join CHR ''/'' [''a'', ''b.html'']) ''https://example.com/''
     = ''https://example.com/a/b.html''
   \<and> \<not> endswith ''https://example.com'' ''/''
   \<and> generate_url CHR ''/'' (py_join CHR ''/'' [''a'', ''b.html'']) ''https://example.com''
     = ''https://example.com/a/b.html''
   \<and> CHR 0x5C \<notin> set ''a'' \<and> CHR 0x5C \<notin> set ''b.html''
   \<and> py_replace (py_join CHR 0x5C [''a'', ''b.html'']) CHR 0x5C CHR ''/'' = ''a/b.html''"
proof -
  have names: "\<forall>name \<in> set [''a'', ''b.html'']. CHR 0x5C \<notin> set name" by simp
  have "py_replace (py_join CHR 0x5C [''a'', ''b.html'']) CHR 0x5C CHR ''/''
      = py_join CHR ''/'' [''a'', ''b.html'']"
    by (rule generate_url_location [THEN conjunct2, THEN conjunct2, THEN mp, OF names])
  moreover have "generate_url CHR ''/'' (py_join CHR ''/'' [''a'', ''b.html'']) (''https://example.com'' @ ''/'')
      = ''https://example.com'' @ ''/'' @ py_replace (py_join CHR ''/'' [''a'', ''b.html'']) CHR ''/'' CHR ''/''"
    by (rule generate_url_location [THEN conjunct1])
  moreover have ne: "\<not> endswith ''https://example.com'' ''/''"
    by (simp add: endswith_def)
  moreover have "generate_url CHR ''/'' (py_join CHR ''/'' [''a'', ''b.html'']) ''https://example.com''
      = ''https://example.com'' @ ''/'' @ py_replace (py_join CHR ''/'' [''a'', ''b.html'']) CHR ''/'' CHR ''/''"
    by (rule generate_url_location [THEN conjunct2, THEN conjunct1, THEN mp, OF ne])
  ultimately show ?thesis
    by (simp add: py_replace_def)
qed


subsection \<open>The index\<close>

lemma isoformat_seconds:
  "isoformat (t\<lparr>microsecond := 0\<rparr>) =
     zero_pad 4 (year t) @ ''-'' @ zero_pad 2 (month t) @ ''-'' @ zero_pad 2 (day t) @ ''T'' @
     zero_pad 2 (hour t) @ '':'' @ zero_pad 2 (minute t) @ '':'' @ zero_pad 2 (second t)"
  by (simp add: isoformat_def)

lemma isoformat_nonempty: "isoformat t \<noteq> []"
  by (simp add: isoformat_def)

lemma sitemap_elems_eq:
  "sitemap_elems clk domain output_dir names w =
     (map (\<lambda>k. Element ''sitemap'' [] None
                 [Element ''loc'' [] (Some (sitemap_loc domain output_dir (names ! k))) [],
                  Element ''lastmod'' [] (Some (isoformat ((clk (ticks w + k))\<lparr>microsecond := 0\<rparr>))) []])
          [0..<length names],
      w\<lparr>ticks := ticks w + length names\<rparr>)"
proof (induction names arbitrary: w)
  case Nil
  then show ?case by simp
next
  case (Cons name names)
  show ?case
    by (simp add: Cons.IH now_def upt_conv_Cons map_Suc_upt [symmetric] del: upt_Suc)
qed

lemma texts_at_sitemap_elems:
  "texts_at ''lastmod'' (Element tg ats tx (fst (sitemap_elems clk domain output_dir names w)))
     = map (\<lambda>k. isoformat ((clk (ticks w + k))\<lparr>microsecond := 0\<rparr>)) [0..<length names]"
  "texts_at ''loc'' (Element tg ats tx (fst (sitemap_elems clk domain output_dir names w)))
     = map (\<lambda>k. sitemap_loc domain output_dir (names ! k)) [0..<length names]"
  by (simp_all add: sitemap_elems_eq texts_at_def child_texts_def List.map_filter_simps comp_def)

lemmas decimal_eval = zero_pad_def digits10.simps digit_char_def digit_chars_def

lemma generate_sitemap_index_texts:
  "texts_at ''lastmod'' (snd (fst (generate_sitemap_index clk sep names domain output_dir w)))
     = map (\<lambda>k. isoformat ((clk (ticks w + k))\<lparr>microsecond := 0\<rparr>)) [0..<length names]"
  "texts_at ''loc'' (snd (fst (generate_sitemap_index clk sep names domain output_dir w)))
     = map (\<lambda>k. sitemap_loc domain output_dir (names ! k)) [0..<length names]"
  by (simp_all add: generate_sitemap_index_def split_beta texts_at_sitemap_elems)

text \<open>
  C2, as amended. The last-modified text of the \<open>k\<close>-th entry of the index (from 0) is the
  \<open>k\<close>-th reading of the clock during the generation of the index, without its
  microseconds and printed without a fraction. The entries carry the same text whenever
  those readings agree up to their microseconds.
\<close>

theorem index_lastmod_readings:
  "texts_at ''lastmod'' (snd (fst (generate_sitemap_index clk sep names domain output_dir w)))
     = map (\<lambda>k. isoformat ((clk (ticks w + k))\<lparr>microsecond := 0\<rparr>)) [0..<length names]
   \<and> (\<forall>k. isoformat ((clk k)\<lparr>microsecond := 0\<rparr>) =
          zero_pad 4 (year (clk k)) @ ''-'' @ zero_pad 2 (month (clk k)) @ ''-'' @
          zero_pad 2 (day (clk k)) @ ''T'' @ zero_pad 2 (hour (clk k)) @ '':'' @
          zero_pad 2 (minute (clk k)) @ '':'' @ zero_pad 2 (second (clk k)))
   \<and> ((\<forall>k < length names. (clk (ticks w + k))\<lparr>microsecond := 0\<rparr> = t) \<longrightarrow>
        (\<forall>m \<in> set (texts_at ''lastmod''
             (snd (fst (generate_sitemap_index clk sep names domain output_dir w)))).
           m = isoformat t))"
  by (auto simp: generate_sitemap_index_texts isoformat_seconds)

lemma isoformat_noon: "isoformat noon = ''2024-03-09T12:00:00''"
  by (simp add: isoformat_def noon_def decimal_eval)

lemma upt_two: "[0..<length [a, b]] = [0, Suc 0]"
  by (simp add: upt_rec)

theorem index_lastmod_readings_witness:
  "texts_at ''lastmod'' (snd (fst (generate_sitemap_index (\<lambda>k. noon\<lparr>microsecond := 7 * k\<rparr>) CHR ''/''
       [''sitemap_1.xml'', ''sitemap_2.xml''] ''https://example.com'' ''sitemaps'' start)))
     = [''2024-03-09T12:00:00'', ''2024-03-09T12:00:00'']"
proof -
  let ?clk = "\<lambda>k. noon\<lparr>microsecond := 7 * k\<rparr>"
  let ?texts = "texts_at ''lastmod'' (snd (fst (generate_sitemap_index ?clk CHR ''/''
       [''sitemap_1.xml'', ''sitemap_2.xml''] ''https://example.com'' ''sitemaps'' start)))"
  have same: "\<forall>k < length [''sitemap_1.xml'', ''sitemap_2.xml''].
      (?clk (ticks start + k))\<lparr>microsecond := 0\<rparr> = noon"
    by (simp add: noon_def)
  have all: "\<forall>m \<in> set ?texts. m = isoformat noon"
    by (rule index_lastmod_readings [THEN conjunct2, THEN conjunct2, THEN mp, OF same])
  have "?texts = [isoformat ((?clk (ticks start + 0))\<lparr>microsecond := 0\<rparr>),
                  isoformat ((?clk (ticks start + Suc 0))\<lparr>microsecond := 0\<rparr>)]"
    by (simp only: generate_sitemap_index_texts upt_two list.map)
  with all show ?thesis
    by (simp add: isoformat_noon)
qed

text \<open>
  The claim C2 as stated fails: with two sitemap files and a clock that passes midnight
  between its two readings, the two entries of one index carry different texts.
\<close>

theorem index_lastmod_differ:
  "texts_at ''lastmod'' (snd (fst (generate_sitemap_index midnight_clock CHR ''/''
       [''sitemap_1.xml'', ''sitemap_2.xml''] ''https://example.com'' ''sitemaps'' start)))
     = [''2024-03-09T23:59:59'', ''2024-03-10T00:00:00'']"
proof -
  have "isoformat ((midnight_clock 0)\<lparr>microsecond := 0\<rparr>) = ''2024-03-09T23:59:59''"
    by (simp add: midnight_clock_def isoformat_def decimal_eval)
  moreover have "isoformat ((midnight_clock (Suc 0))\<lparr>microsecond := 0\<rparr>) = ''2024-03-10T00:00:00''"
    by (simp add: midnight_clock_def isoformat_def decimal_eval)
  ultimately show ?thesis
    by (simp only: generate_sitemap_index_texts upt_two start_def) simp
qed

lemma map_upt_nth: "map (\<lambda>k. h (xs ! k)) [0..<length xs] = map h xs"
  by (rule nth_equalityI) simp_all

lemma py_rstrip_last: "py_rstrip s c = [] \<or> last (py_rstrip s c) \<noteq> c"
proof (cases "dropWhile (\<lambda>x. x = c) (rev s)")
  case Nil
  then show ?thesis by (simp add: py_rstrip_def)
next
  case (Cons x xs)
  then have "x \<noteq> c"
    using hd_dropWhile [of "\<lambda>x. x = c" "rev s"] by auto
  with Cons show ?thesis by (simp add: py_rstrip_def)
qed

lemma py_rstrip_hd:
  assumes "s \<noteq> []" and "hd s \<noteq> c"
  shows "py_rstrip s c \<noteq> [] \<and> hd (py_rstrip s c) = hd s"
proof -
  obtain x xs where s: "s = x # xs" using assms(1) by (cases s) auto
  with assms(2) have x: "x \<noteq> c" by simp
  have "dropWhile (\<lambda>y. y = c) (rev xs @ [x]) = dropWhile (\<lambda>y. y = c) (rev xs) @ [x]"
    using x by (simp add: dropWhile_append3)
  then have "py_rstrip s c = x # rev (dropWhile (\<lambda>y. y = c) (rev xs))"
    by (simp add: py_rstrip_def s)
  then show ?thesis by (simp add: s)
qed

lemma join_point:
  assumes "A = [] \<or> last A \<noteq> c" and "B \<noteq> []" and "hd B \<noteq> c"
  shows "(A @ c # B) ! length A = c"
    and "\<not> (0 < length A \<and> (A @ c # B) ! (length A - 1) = c)"
    and "\<not> (Suc (length A) < length (A @ c # B) \<and> (A @ c # B) ! Suc (length A) = c)"
proof -
  show "(A @ c # B) ! length A = c" by simp
  show "\<not> (0 < length A \<and> (A @ c # B) ! (length A - 1) = c)"
    using assms(1) by (cases "A = []") (auto simp: nth_append last_conv_nth)
  show "\<not> (Suc (length A) < length (A @ c # B) \<and> (A @ c # B) ! Suc (length A) = c)"
    using assms(2,3) by (cases B) (auto simp: nth_append)
qed

lemma sitemap_filename_hd: "sitemap_filename i \<noteq> [] \<and> hd (sitemap_filename i) \<noteq> CHR ''/''"
  by (simp add: sitemap_filename_def)

text \<open>
  C9, as amended. For an output directory that is not empty and does not begin with a
  slash, every location of the index is the domain without its trailing slashes, a slash,
  the output directory without its trailing slashes, a slash and the file name, and
  neither of the two slashes that join them stands next to another slash.
\<close>

theorem sitemap_loc_joins:
  assumes "output_dir \<noteq> []" and "hd output_dir \<noteq> CHR ''/''"
  shows "texts_at ''loc'' (snd (fst (generate_sitemap_index clk sep
             (map sitemap_filename js) domain output_dir w)))
           = map (\<lambda>i. sitemap_loc domain output_dir (sitemap_filename i)) js
     \<and> (let l = sitemap_loc domain output_dir (sitemap_filename i);
             p1 = length (py_rstrip domain CHR ''/'');
             p2 = p1 + 1 + length (py_rstrip output_dir CHR ''/'')
         in l = py_rstrip domain CHR ''/'' @ ''/'' @ py_rstrip output_dir CHR ''/'' @ ''/'' @
                sitemap_filename i
            \<and> l ! p1 = CHR ''/'' \<and> l ! p2 = CHR ''/''
            \<and> \<not> double_slash_at l p1 \<and> \<not> double_slash_at l p2)"
proof -
  define A where "A = py_rstrip domain CHR ''/''"
  define B where "B = py_rstrip output_dir CHR ''/''"
  define F where "F = sitemap_filename i"
  define l where "l = sitemap_loc domain output_dir (sitemap_filename i)"
  have l: "l = A @ CHR ''/'' # (B @ CHR ''/'' # F)"
    and l': "l = (A @ CHR ''/'' # B) @ CHR ''/'' # F"
    by (simp_all add: l_def sitemap_loc_def A_def B_def F_def)
  have A: "A = [] \<or> last A \<noteq> CHR ''/''"
    unfolding A_def by (rule py_rstrip_last)
  have B1: "B \<noteq> []" and B2: "hd B = hd output_dir"
    unfolding B_def using py_rstrip_hd [OF assms] by blast+
  have B3: "last B \<noteq> CHR ''/''"
    using py_rstrip_last [of output_dir "CHR ''/''"] B1 unfolding B_def by blast
  have B: "B \<noteq> []" "hd B \<noteq> CHR ''/''" "last B \<noteq> CHR ''/''"
    using B1 B2 B3 assms(2) by simp_all
  have F: "F \<noteq> []" "hd F \<noteq> CHR ''/''"
    using sitemap_filename_hd [of i] by (simp_all add: F_def)
  have p1: "l ! length A = CHR ''/''" "\<not> double_slash_at l (length A)"
    using join_point [of A "CHR ''/''" "B @ CHR ''/'' # F"] A B
    by (auto simp: l double_slash_at_def)
  have p2: "l ! (length A + 1 + length B) = CHR ''/''"
    "\<not> double_slash_at l (length A + 1 + length B)"
    using join_point [of "A @ CHR ''/'' # B" "CHR ''/''" F] B F
    by (auto simp: l' double_slash_at_def)
  have texts: "texts_at ''loc'' (snd (fst (generate_sitemap_index clk sep
             (map sitemap_filename js) domain output_dir w)))
           = map (\<lambda>i. sitemap_loc domain output_dir (sitemap_filename i)) js"
    by (simp add: generate_sitemap_index_texts map_upt_nth [of _ "map sitemap_filename js", simplified] comp_def)
  have lF: "sitemap_loc domain output_dir F = l"
    by (simp add: l_def F_def)
  show ?thesis
    using p1 p2 texts l
    by (simp add: Let_def A_def [symmetric] B_def [symmetric] F_def [symmetric] lF)
qed

theorem sitemap_loc_joins_witness:
  "texts_at ''loc'' (snd (fst (generate_sitemap_index midnight_clock CHR ''/''
       (map sitemap_filename [0, 1]) ''https://example.com/'' ''maps/'' start)))
     = [''https://example.com/maps/sitemap_1.xml'', ''https://example.com/maps/sitemap_2.xml'']
   \<and> \<not> double_slash_at ''https://example.com/maps/sitemap_1.xml'' (length ''https://example.com'')
   \<and> \<not> double_slash_at ''https://example.com/maps/sitemap_1.xml''
         (length ''https://example.com/maps'')"
proof -
  have h: "''maps/'' \<noteq> []" "hd ''maps/'' \<noteq> CHR ''/''" by simp_all
  have r: "py_rstrip ''https://example.com/'' CHR ''/'' = ''https://example.com''"
    "py_rstrip ''maps/'' CHR ''/'' = ''maps''"
    by (simp_all add: py_rstrip_def)
  have f: "sitemap_filename 0 = ''sitemap_1.xml''" "sitemap_filename 1 = ''sitemap_2.xml''"
    by (simp_all add: sitemap_filename_def py_str_int_def digits10.simps digit_char_def
        digit_chars_def)
  from sitemap_loc_joins [OF h, of midnight_clock "CHR ''/''" "[0, 1]" "''https://example.com/''"
      start 0]
  show ?thesis
    by (simp add: Let_def sitemap_loc_def r f)
qed

lemma double_slash_at_middle: "double_slash_at (A @ CHR ''/'' # CHR ''/'' # B) (length A)"
  by (simp add: double_slash_at_def nth_append)

text \<open>
  The claim C9 as stated fails for an absolute output directory: the slash that joins the
  domain and the output directory is followed by the slash the directory begins with.
\<close>

theorem sitemap_loc_absolute_output:
  "texts_at ''loc'' (snd (fst (generate_sitemap_index midnight_clock CHR ''/''
       (map sitemap_filename [0]) ''https://example.com'' ''/srv/www/sitemaps'' start)))
     = [''https://example.com//srv/www/sitemaps/sitemap_1.xml'']
   \<and> double_slash_at ''https://example.com//srv/www/sitemaps/sitemap_1.xml''
         (length (py_rstrip ''https://example.com'' CHR ''/''))"
proof -
  have r: "py_rstrip ''https://example.com'' CHR ''/'' = ''https://example.com''"
    "py_rstrip ''/srv/www/sitemaps'' CHR ''/'' = ''/srv/www/sitemaps''"
    by (simp_all add: py_rstrip_def)
  have f: "sitemap_filename 0 = ''sitemap_1.xml''"
    by (simp add: sitemap_filename_def py_str_int_def digits10.simps digit_char_def
        digit_chars_def)
  have "texts_at ''loc'' (snd (fst (generate_sitemap_index midnight_clock CHR ''/''
       (map sitemap_filename [0]) ''https://example.com'' ''/srv/www/sitemaps'' start)))
     = [''https://example.com//srv/www/sitemaps/sitemap_1.xml'']"
    by (simp add: generate_sitemap_index_texts sitemap_loc_def r f)
  moreover have "double_slash_at (''https://example.com'' @ CHR ''/'' # CHR ''/'' #
      ''srv/www/sitemaps/sitemap_1.xml'') (length ''https://example.com'')"
    by (rule double_slash_at_middle)
  ultimately show ?thesis
    by (simp only: r) simp
qed


subsection \<open>Date resolution\<close>

lemma resolve_index:
  assumes "startswith (py_lower file) ''index''"
  shows "resolve_lastmod clk file file_path f w =
     Inr (isoformat ((clk (ticks w))\<lparr>microsecond := 0\<rparr>), w\<lparr>ticks := Suc (ticks w)\<rparr>)"
  using assms by (simp add: resolve_lastmod_def now_def)

lemma resolve_other:
  assumes "\<not> startswith (py_lower file) ''index''"
  shows "resolve_lastmod clk file file_path f w =
     (case extract_date_from_content file_path f w of
        (content_date, w1) \<Rightarrow>
          if truthy content_date then Inr (the content_date, w1)
          else (case extract_creation_date file_path f w1 of
                  (creation, w2) \<Rightarrow>
                    if truthy creation then Inr (the creation, w2)
                    else (case get_file_last_modified f of
                            Inl e \<Rightarrow> Inl e
                          | Inr v \<Rightarrow> Inr (v, w2))))"
  using assms by (simp add: resolve_lastmod_def Let_def split: prod.splits)

text \<open>
  C3. For a file whose base name starts with \<^verbatim>\<open>index\<close> in any case, the resolved timestamp is
  the reading of the clock at that moment without its microseconds, printed without a
  fraction, whatever the content and the modification time of the file are; one reading
  of the clock is the only effect.
\<close>

theorem index_name_override:
  assumes "index_name file"
  shows "resolve_lastmod clk file file_path f w =
           Inr (isoformat ((clk (ticks w))\<lparr>microsecond := 0\<rparr>), w\<lparr>ticks := Suc (ticks w)\<rparr>)
     \<and> isoformat ((clk (ticks w))\<lparr>microsecond := 0\<rparr>) =
          zero_pad 4 (year (clk (ticks w))) @ ''-'' @ zero_pad 2 (month (clk (ticks w))) @ ''-'' @
          zero_pad 2 (day (clk (ticks w))) @ ''T'' @ zero_pad 2 (hour (clk (ticks w))) @ '':'' @
          zero_pad 2 (minute (clk (ticks w))) @ '':'' @ zero_pad 2 (second (clk (ticks w)))"
  using assms by (simp add: index_name_iff [symmetric] resolve_index isoformat_seconds)

theorem index_name_override_witness:
  "index_name ''Index.html'' \<and>
   resolve_lastmod midnight_clock ''Index.html'' ''/site/Index.html''
     \<lparr>read_result = Inr ''1061 2017-06-12 by someone'', mtime_result = Inr noon\<rparr> start
   = Inr (''2024-03-09T23:59:59'', \<lparr>ticks = 1, stdout = []\<rparr>)"
proof -
  have h: "index_name ''Index.html''"
    by (simp add: index_name_def same_letters_def)
  have "isoformat ((midnight_clock 0)\<lparr>microsecond := 0\<rparr>) = ''2024-03-09T23:59:59''"
    by (simp add: midnight_clock_def isoformat_def decimal_eval)
  with index_name_override [OF h, of midnight_clock "''/site/Index.html''"
      "\<lparr>read_result = Inr ''1061 2017-06-12 by someone'', mtime_result = Inr noon\<rparr>" start] h
  show ?thesis
    by (simp add: start_def)
qed


subsection \<open>The scan\<close>















lemma names_site:
  "html_name ''a.html''" "\<not> html_name ''notes.txt''" "html_name ''Profile.html''"
  by (simp_all add: html_name_def same_letters_def)

lemma urls_site:
  "generate_url CHR ''/'' ''a.html'' ''https://example.com'' = ''https://example.com/a.html''"
  "generate_url CHR ''/'' ''User/Profile.html'' ''https://example.com'' = ''https://example.com/User/Profile.html''"
  by (simp_all add: generate_url_def py_replace_def endswith_def)

lemma user_site:
  "\<not> user_url ''https://example.com/a.html''"
  "user_url ''https://example.com/User/Profile.html''"
  by (simp_all add: user_url_def same_letters_def upt_rec)





lemma scan_files_raise:
  assumes "html_name name"
    and "\<not> user_url (generate_url sep (py_join sep (names @ [name])) domain)"
    and "resolve_lastmod clk name (os_path_join sep subdir name) f w = Inl e"
  shows "scan_files clk sep domain subdir names ((name, f) # files) (es, t, w) = Inl e"
  using assms by (simp add: html_name_iff user_url_iff)





subsection \<open>The sitemap files\<close>









subsection \<open>The regular expressions\<close>

lemma re_search_Some:
  assumes "i \<le> length s" and "re_match p (drop i s) = Some (g, r)"
    and "\<forall>j<i. re_match p (drop j s) = None"
  shows "re_search p s = Some g"
  using assms
proof (induction s arbitrary: i)
  case Nil
  then show ?case by simp
next
  case (Cons c s)
  show ?case
  proof (cases i)
    case 0
    with Cons.prems show ?thesis by simp
  next
    case (Suc k)
    with Cons.prems have "re_match p (c # s) = None" by force
    moreover have "re_search p s = Some g"
    proof (rule Cons.IH [of k])
      show "k \<le> length s" using Cons.prems Suc by simp
      show "re_match p (drop k s) = Some (g, r)" using Cons.prems Suc by simp
      show "\<forall>j<k. re_match p (drop j s) = None"
      proof (intro allI impI)
        fix j assume "j < k"
        then have "Suc j < i" using Suc by simp
        with Cons.prems(3) have "re_match p (drop (Suc j) (c # s)) = None" by blast
        then show "re_match p (drop j s) = None" by simp
      qed
    qed
    ultimately show ?thesis by simp
  qed
qed

lemma re_search_None:
  assumes "\<forall>j\<le>length s. re_match p (drop j s) = None"
  shows "re_search p s = None"
  using assms
proof (induction s)
  case Nil
  then show ?case by simp
next
  case (Cons c s)
  from Cons.prems have "re_match p (c # s) = None" by force
  moreover have "\<forall>j\<le>length s. re_match p (drop j s) = None"
  proof (intro allI impI)
    fix j assume "j \<le> length s"
    then have "Suc j \<le> length (c # s)" by simp
    with Cons.prems have "re_match p (drop (Suc j) (c # s)) = None" by blast
    then show "re_match p (drop j s) = None" by simp
  qed
  ultimately show ?case using Cons.IH by simp
qed

lemma keep_False [simp]: "keep False c r = r"
  by (simp add: keep_def)

lemma map_option_keep_False [simp]: "map_option (keep False c) x = x"
  by (cases x) simp_all

lemma re_match_lits:
  "re_match (lits k @ ps) s =
     (if length k \<le> length s \<and> map py_lower_char (take (length k) s) = map py_lower_char k
      then re_match ps (drop (length k) s) else None)"
proof (induction k arbitrary: s)
  case Nil
  show ?case by (simp add: lits_def)
next
  case (Cons a k)
  show ?case
  proof (cases s)
    case Nil
    then show ?thesis by (simp add: lits_def)
  next
    case (Cons c cs)
    with Cons.IH [of cs] show ?thesis
      by (auto simp: lits_def)
  qed
qed

lemma re_match_spaces:
  assumes "\<And>c r. is_space c \<Longrightarrow> re_match ps (c # r) = None"
  shows "re_match ((Space, Star, False) # ps) s = re_match ps (dropWhile is_space s)"
proof (induction s)
  case Nil
  show ?case by simp
next
  case (Cons c s)
  show ?case
  proof (cases "is_space c")
    case False
    then show ?thesis by simp
  next
    case True
    show ?thesis
    proof (cases "re_match ps (dropWhile is_space s)")
      case None
      with Cons True assms show ?thesis by simp
    next
      case (Some r)
      with Cons True show ?thesis by simp
    qed
  qed
qed

lemma re_match_spaces1:
  assumes "\<And>c r. is_space c \<Longrightarrow> re_match ps (c # r) = None"
  shows "re_match ((Space, Plus, False) # ps) s =
     (if s \<noteq> [] \<and> is_space (hd s) then re_match ps (dropWhile is_space s) else None)"
proof (cases s)
  case Nil
  then show ?thesis by simp
next
  case (Cons c cs)
  with re_match_spaces [of ps cs, OF assms] show ?thesis by simp
qed

lemma re_match_until:
  "re_match [(NotLit q, Star, True), (Lit q, Once, False)] s =
     (case dropWhile (\<lambda>c. py_lower_char c \<noteq> py_lower_char q) s of
        [] \<Rightarrow> None
      | c # r \<Rightarrow> Some (takeWhile (\<lambda>c. py_lower_char c \<noteq> py_lower_char q) s, r))"
proof (induction s)
  case Nil
  show ?case by simp
next
  case (Cons c s)
  show ?case
  proof (cases "py_lower_char c = py_lower_char q")
    case True
    then show ?thesis by (simp add: keep_def)
  next
    case False
    show ?thesis
    proof (cases "dropWhile (\<lambda>c. py_lower_char c \<noteq> py_lower_char q) s")
      case Nil
      with Cons False show ?thesis by (simp del: dropWhile_eq_Nil_conv)
    next
      case (Cons x r)
      with Cons.IH False show ?thesis by (simp add: keep_def)
    qed
  qed
qed

lemma re_match_value:
  "re_match [(NotLit q, Plus, True), (Lit q, Once, False)] s =
     (case s of
        [] \<Rightarrow> None
      | c # cs \<Rightarrow>
          if py_lower_char c = py_lower_char q then None
          else (case dropWhile (\<lambda>c. py_lower_char c \<noteq> py_lower_char q) cs of
                  [] \<Rightarrow> None
                | x # r \<Rightarrow> Some (c # takeWhile (\<lambda>c. py_lower_char c \<noteq> py_lower_char q) cs, r)))"
proof (cases s)
  case Nil
  then show ?thesis by simp
next
  case (Cons c cs)
  show ?thesis
  proof (cases "dropWhile (\<lambda>c. py_lower_char c \<noteq> py_lower_char q) cs")
    case Nil
    with Cons show ?thesis by (simp add: re_match_until del: dropWhile_eq_Nil_conv)
  next
    case (Cons x r)
    with \<open>s = c # cs\<close> show ?thesis by (simp add: re_match_until keep_def)
  qed
qed

lemma re_match_captured:
  "re_match (map (\<lambda>a. (a, Once, True)) as @ ps) s =
     (if length as \<le> length s \<and> list_all2 atom_ok as (take (length as) s)
      then map_option (\<lambda>(g, r). (take (length as) s @ g, r)) (re_match ps (drop (length as) s))
      else None)"
proof (induction as arbitrary: s)
  case Nil
  show ?case by (cases "re_match ps s") auto
next
  case (Cons a as)
  show ?case
  proof (cases s)
    case Nil
    then show ?thesis by simp
  next
    case (Cons c cs)
    with Cons.IH [of cs] show ?thesis
      by (auto simp: keep_def option.map_comp comp_def split_beta)
  qed
qed

lemma space_not_letter:
  assumes "is_space c"
  shows "py_lower_char c \<noteq> CHR ''b''" and "py_lower_char c \<noteq> CHR ''=''"
    and "py_lower_char c \<noteq> CHR 0x27"
  using assms
  by (auto simp: py_lower_char_letter py_lower_char_other is_space_def space_chars_def)

lemma lower_consts:
  "py_lower_char CHR ''b'' = CHR ''b''" "py_lower_char CHR ''y'' = CHR ''y''"
  "py_lower_char CHR ''='' = CHR ''=''" "py_lower_char CHR ''>'' = CHR ''>''"
  "py_lower_char CHR 0x27 = CHR 0x27" "py_lower_char CHR ''-'' = CHR ''-''"
  by (simp_all add: lower_defs)

lemma same_letters_length: "same_letters s low up \<Longrightarrow> length s = min (length low) (length up)"
  by (auto simp: same_letters_def dest: list_all2_lengthD)

lemma re_match_by:
  "re_match (lits ''by'') r =
     (if same_letters (take 2 r) ''by'' ''BY'' then Some ([], drop 2 r) else None)"
proof -
  have len: "length ''by'' = 2" by simp
  have low: "map py_lower_char ''by'' = ''by''" by (simp add: lower_consts)
  have eq: "same_letters (take 2 r) ''by'' ''BY'' \<longleftrightarrow> map py_lower_char (take 2 r) = ''by''"
    by (rule same_letters_lower) (simp add: py_lower_char_letter)
  have "2 \<le> length r" if "same_letters (take 2 r) ''by'' ''BY''"
    using same_letters_length [OF that] by simp
  with re_match_lits [of "''by''" "[]" r, unfolded len low] show ?thesis
    by (auto simp: eq)
qed

lemma re_match_tail:
  "re_match ((Space, Plus, False) # lits ''by'') r =
     (if r \<noteq> [] \<and> is_space (hd r) \<and> same_letters (take 2 (dropWhile is_space r)) ''by'' ''BY''
      then Some ([], drop 2 (dropWhile is_space r)) else None)"
proof -
  have "re_match (lits ''by'') (c # t) = None" if "is_space c" for c t
    using space_not_letter(1) [OF that] by (simp add: lits_def lower_consts)
  from re_match_spaces1 [of "lits ''by''" r, OF this] show ?thesis
    by (simp add: re_match_by)
qed

lemma atoms_shape:
  "list_all2 atom_ok [Digit, Digit, Digit, Digit, Lit CHR ''-'', Digit, Digit, Lit CHR ''-'', Digit, Digit] s
     \<longleftrightarrow> shape s ''dddd-dd-dd''"
  by (simp add: shape_def list_all2_Cons1 list_all2_Cons2 lower_consts py_lower_char_other)

lemma shape_length: "shape s t \<Longrightarrow> length s = length t"
  by (auto simp: shape_def dest: list_all2_lengthD)

lemma re_match_content_date:
  "re_match content_date_regex s =
     (if content_date_here s
      then Some (take 10 s, drop 2 (dropWhile is_space (drop 10 s))) else None)"
proof -
  let ?as = "[Digit, Digit, Digit, Digit, Lit CHR ''-'', Digit, Digit, Lit CHR ''-'', Digit, Digit]"
  have p: "content_date_regex = map (\<lambda>a. (a, Once, True)) ?as @ ((Space, Plus, False) # lits ''by'')"
    by (simp add: content_date_regex_def)
  have len: "length ?as = 10" by simp
  have l: "10 \<le> length s" if "shape (take 10 s) ''dddd-dd-dd''"
    using shape_length [OF that] by simp
  show ?thesis
    unfolding p re_match_captured len re_match_tail atoms_shape
    using l by (auto simp: content_date_here_def Let_def)
qed

lemma re_match_creation_date:
  "map_option fst (re_match creation_date_regex s) = creation_here s"
proof -
  let ?q = "CHR 0x27"
  let ?K = "?q # ''creationDate'' @ [?q]"
  let ?capture = "[(NotLit ?q, Plus, True), (Lit ?q, Once, False)]"
  let ?p3 = "lits [?q] @ ?capture"
  let ?p2 = "lits ''=>'' @ ((Space, Star, False) # ?p3)"
  have p: "creation_date_regex = lits ?K @ ((Space, Star, False) # ?p2)"
    by (simp add: creation_date_regex_def lits_def)
  have lenK: "length ?K = 14" and len2: "length ''=>'' = 2" by simp_all
  have lowK: "map py_lower_char ?K = ?q # ''creationdate'' @ [?q]"
    by (simp add: lower_defs)
  have low2: "map py_lower_char ''=>'' = ''=>''" by (simp add: lower_consts)
  have K: "map py_lower_char (take 14 s) = ?q # ''creationdate'' @ [?q] \<longleftrightarrow>
      same_letters (take 14 s) (?q # ''creationdate'' @ [?q]) (?q # ''CREATIONDATE'' @ [?q])"
    by (rule same_letters_lower [symmetric])
      (simp add: py_lower_char_letter py_lower_char_other)
  have K14: "14 \<le> length s"
    if "same_letters (take 14 s) (?q # ''creationdate'' @ [?q]) (?q # ''CREATIONDATE'' @ [?q])"
    using same_letters_length [OF that] by simp
  have arrow: "2 \<le> length r \<and> map py_lower_char (take 2 r) = ''=>'' \<longleftrightarrow> take 2 r = ''=>''" for r
  proof -
    have "map py_lower_char (take 2 r) = ''=>'' \<longleftrightarrow> same_letters (take 2 r) ''=>'' ''=>''"
      by (rule same_letters_lower [symmetric]) (simp add: py_lower_char_other)
    moreover have "same_letters t ''=>'' ''=>'' \<longleftrightarrow> t = ''=>''" for t
      by (auto simp: same_letters_def list_all2_Cons2)
    ultimately have "map py_lower_char (take 2 r) = ''=>'' \<longleftrightarrow> take 2 r = ''=>''"
      by simp
    moreover have "take 2 r = ''=>'' \<Longrightarrow> 2 \<le> length r"
      by (cases r; cases "tl r") auto
    ultimately show ?thesis by auto
  qed
  have s2: "re_match ?p2 (c # t) = None" if "is_space c" for c t
    using space_not_letter(2) [OF that] by (simp add: lits_def lower_consts)
  have s3: "re_match ?p3 (c # t) = None" if "is_space c" for c t
    using space_not_letter(3) [OF that] by (simp add: lits_def lower_consts)
  have v: "re_match ?p3 r =
      (case r of
         q # c # cs \<Rightarrow>
           if q = ?q \<and> c \<noteq> ?q
           then (case dropWhile (\<lambda>x. x \<noteq> ?q) cs of
                   [] \<Rightarrow> None
                 | x # t \<Rightarrow> Some (c # takeWhile (\<lambda>x. x \<noteq> ?q) cs, t))
           else None
       | _ \<Rightarrow> None)" for r
  proof (cases r)
    case Nil
    then show ?thesis by (simp add: lits_def)
  next
    case (Cons a t)
    then show ?thesis
      by (cases t; cases "dropWhile (\<lambda>x. x \<noteq> ?q) (tl t)")
        (simp_all add: lits_def re_match_value lower_consts py_lower_char_other
          del: re_match.simps(7) dropWhile_eq_Nil_conv)
  qed
  have v': "map_option fst (re_match ?p3 r) =
      (case r of
         q # c # cs \<Rightarrow>
           if q = ?q \<and> c \<noteq> ?q
           then (case dropWhile (\<lambda>x. x \<noteq> ?q) cs of
                   [] \<Rightarrow> None
                 | x # t \<Rightarrow> Some (c # takeWhile (\<lambda>x. x \<noteq> ?q) cs))
           else None
       | _ \<Rightarrow> None)" for r
  proof (cases r)
    case Nil
    then show ?thesis by (simp only: v) simp
  next
    case r: (Cons a t)
    show ?thesis
    proof (cases t)
      case Nil
      with r show ?thesis by (simp only: v) simp
    next
      case t: (Cons c cs)
      show ?thesis
      proof (cases "dropWhile (\<lambda>x. x \<noteq> ?q) cs")
        case Nil
        with r t show ?thesis by (simp only: v) (simp del: dropWhile_eq_Nil_conv)
      next
        case (Cons x u)
        with r t show ?thesis by (simp only: v) simp
      qed
    qed
  qed
  have m2: "re_match ?p2 r =
      (if take 2 r = ''=>'' then re_match ?p3 (dropWhile is_space (drop 2 r)) else None)" for r
    using re_match_lits [of "''=>''" "(Space, Star, False) # ?p3" r, unfolded len2 low2 arrow]
    by (simp only: re_match_spaces [of ?p3, OF s3])
  have m2': "map_option fst (re_match ?p2 r) =
      (if take 2 r = ''=>'' then map_option fst (re_match ?p3 (dropWhile is_space (drop 2 r)))
       else None)" for r
    by (simp add: m2)
  have "re_match creation_date_regex s =
      (if same_letters (take 14 s) (?q # ''creationdate'' @ [?q]) (?q # ''CREATIONDATE'' @ [?q])
       then re_match ?p2 (dropWhile is_space (drop 14 s)) else None)"
    unfolding p
    using re_match_lits [of ?K "(Space, Star, False) # ?p2" s, unfolded lenK lowK K] K14
    by (simp only: re_match_spaces [of ?p2, OF s2]) auto
  then have "map_option fst (re_match creation_date_regex s) =
      (if same_letters (take 14 s) (?q # ''creationdate'' @ [?q]) (?q # ''CREATIONDATE'' @ [?q])
       then map_option fst (re_match ?p2 (dropWhile is_space (drop 14 s))) else None)"
    by simp
  also have "\<dots> = creation_here s"
    by (simp only: creation_here_def Let_def m2' v')
  finally show ?thesis .
qed


subsection \<open>Parsing dates\<close>

lemma is_digit_val: "is_digit c \<Longrightarrow> \<exists>a<10. digit_val c = Some a"
  by (auto simp: is_digit_def digit_val_def digit_chars_def split: if_splits)

lemma digit_not_sep:
  assumes "digit_val c = Some a"
  shows "c \<noteq> CHR ''-''" and "c \<noteq> CHR '':''" and "\<not> is_space c" and "c \<noteq> CHR '' ''"
  using assms
  by (auto simp: digit_val_def digit_chars_def is_space_def space_chars_def split: if_splits)

lemma month_then_dash:
  assumes "digit_val a = Some x" and "digit_val b = Some y" and "x < 10" and "y < 10"
  shows "concat (map (\<lambda>(m, r3). concat (map (K m) (re_lit CHR ''-'' r3))) (re_m (a # b # CHR ''-'' # r)))
       = (if 1 \<le> 10 * x + y \<and> 10 * x + y \<le> 12 then K (10 * x + y) r else [])"
  using assms digit_not_sep(1) [OF assms(2)]
  by (auto simp: re_m_def alt2_def alt1_def re_lit_def)

lemma day_at_end:
  assumes "digit_val a = Some x" and "digit_val b = Some y" and "x < 10" and "y < 10"
  shows "re_d [a, b] =
       (if 1 \<le> 10 * x + y \<and> 10 * x + y \<le> 31 then (10 * x + y, []) # (if 1 \<le> x then [(x, [b])] else [])
        else if 1 \<le> x then [(x, [b])] else [])"
  using assms digit_not_sep(4) [OF assms(1)]
  by (auto simp: re_d_def alt2_def alt1_def alt_space_digit_def)

lemma days_in_month_le: "days_in_month y m \<le> 31"
  by (simp add: days_in_month_def)

lemma strptime_Ymd_digits:
  assumes "digit_val y1 = Some a1" "digit_val y2 = Some a2" "digit_val y3 = Some a3"
    "digit_val y4 = Some a4" "digit_val m1 = Some b1" "digit_val m2 = Some b2"
    "digit_val d1 = Some c1" "digit_val d2 = Some c2"
    and "b1 < 10" "b2 < 10" "c1 < 10" "c2 < 10"
  shows "strptime_Ymd [y1, y2, y3, y4, CHR ''-'', m1, m2, CHR ''-'', d1, d2] =
     (if valid_date (1000 * a1 + 100 * a2 + 10 * a3 + a4) (10 * b1 + b2) (10 * c1 + c2)
      then Some \<lparr>year = 1000 * a1 + 100 * a2 + 10 * a3 + a4, month = 10 * b1 + b2,
                 day = 10 * c1 + c2, hour = 0, minute = 0, second = 0, microsecond = 0\<rparr>
      else None)"
proof -
  have Y: "re_Y [y1, y2, y3, y4, CHR ''-'', m1, m2, CHR ''-'', d1, d2] =
      [(1000 * a1 + 100 * a2 + 10 * a3 + a4, [CHR ''-'', m1, m2, CHR ''-'', d1, d2])]"
    using assms by (simp add: re_Y_def)
  have dash: "re_lit CHR ''-'' (CHR ''-'' # r) = [r]" for r
    by (simp add: re_lit_def)
  note M = month_then_dash [OF assms(5,6,9,10)]
  note D = day_at_end [OF assms(7,8,11,12)]
  have bound: "d \<le> days_in_month y m \<Longrightarrow> d \<le> 31" for d y m
    using days_in_month_le [of y m] by simp
  show ?thesis
    unfolding strptime_Ymd_def Y
    by (simp add: dash M D datetime_new_def valid_time_def)
      (auto simp: valid_date_def dest: bound)
qed


















subsection \<open>The first match\<close>

lemma find_upt_None:
  "find P [0..<Suc n] = None \<longleftrightarrow> (\<forall>j\<le>n. \<not> P j)"
  by (auto simp: find_None_iff less_Suc_eq_le simp del: upt_Suc)

lemma find_upt_Some:
  "find P [0..<Suc n] = Some i \<longleftrightarrow> i \<le> n \<and> P i \<and> (\<forall>j<i. \<not> P j)"
proof -
  have nth: "[0..<Suc n] ! k = k" if "k < Suc n" for k
    using that nth_upt [of 0 k "Suc n"] by simp
  have len: "length [0..<Suc n] = Suc n"
    by (simp del: upt_Suc)
  show ?thesis
  proof
    assume "find P [0..<Suc n] = Some i"
    then obtain k where k: "k < Suc n" "P ([0..<Suc n] ! k)" "i = [0..<Suc n] ! k"
      "\<forall>j<k. \<not> P ([0..<Suc n] ! j)"
      unfolding find_Some_iff len by blast
    from k(1,3) have ik: "i = k" by (simp only: nth)
    have "\<not> P j" if "j < k" for j
    proof -
      from that k(1) have "j < Suc n" by simp
      with k(4) that nth [of j] show ?thesis by metis
    qed
    with k(1,2) ik nth [of k] show "i \<le> n \<and> P i \<and> (\<forall>j<i. \<not> P j)"
      by auto
  next
    assume a: "i \<le> n \<and> P i \<and> (\<forall>j<i. \<not> P j)"
    then have i: "i < Suc n" by simp
    have "\<not> P ([0..<Suc n] ! j)" if "j < i" for j
    proof -
      from that i have "j < Suc n" by simp
      with a that nth [of j] show ?thesis by metis
    qed
    with a i nth [of i] show "find P [0..<Suc n] = Some i"
      unfolding find_Some_iff len by (intro exI [of _ i]) auto
  qed
qed

lemma content_date_search: "re_search content_date_regex s = first_content_date s"
proof (cases "find (\<lambda>i. content_date_here (drop i s)) [0..<Suc (length s)]")
  case None
  then have "\<forall>j\<le>length s. re_match content_date_regex (drop j s) = None"
    by (simp add: find_upt_None re_match_content_date del: upt_Suc)
  then have "re_search content_date_regex s = None" by (rule re_search_None)
  with None show ?thesis by (simp add: first_content_date_def del: upt_Suc)
next
  case (Some i)
  then have i: "i \<le> length s" "content_date_here (drop i s)"
    "\<forall>j<i. \<not> content_date_here (drop j s)"
    by (simp_all add: find_upt_Some del: upt_Suc)
  have "re_search content_date_regex s = Some (take 10 (drop i s))"
  proof (rule re_search_Some [OF i(1)])
    show "re_match content_date_regex (drop i s) =
        Some (take 10 (drop i s), drop 2 (dropWhile is_space (drop 10 (drop i s))))"
      using i(2) by (simp add: re_match_content_date)
    show "\<forall>j<i. re_match content_date_regex (drop j s) = None"
      using i(3) by (simp add: re_match_content_date)
  qed
  with Some show ?thesis by (simp add: first_content_date_def del: upt_Suc)
qed

lemma creation_match_None:
  "re_match creation_date_regex t = None \<longleftrightarrow> creation_here t = None"
  using re_match_creation_date [of t]
  by (cases "re_match creation_date_regex t"; cases "creation_here t") auto

lemma creation_date_search: "re_search creation_date_regex s = first_creation_value s"
proof (cases "find (\<lambda>i. creation_here (drop i s) \<noteq> None) [0..<Suc (length s)]")
  case None
  then have "\<forall>j\<le>length s. re_match creation_date_regex (drop j s) = None"
    by (simp add: find_upt_None creation_match_None del: upt_Suc)
  then have "re_search creation_date_regex s = None" by (rule re_search_None)
  with None show ?thesis by (simp add: first_creation_value_def del: upt_Suc)
next
  case (Some i)
  then have i: "i \<le> length s" "creation_here (drop i s) \<noteq> None"
    "\<forall>j<i. creation_here (drop j s) = None"
    by (simp_all add: find_upt_Some del: upt_Suc)
  from i(2) obtain v where v: "creation_here (drop i s) = Some v" by blast
  with re_match_creation_date [of "drop i s"] obtain r where
    m: "re_match creation_date_regex (drop i s) = Some (v, r)"
    by (cases "re_match creation_date_regex (drop i s)") auto
  have "re_search creation_date_regex s = Some v"
  proof (rule re_search_Some [OF i(1) m])
    show "\<forall>j<i. re_match creation_date_regex (drop j s) = None"
      using i(3) by (simp add: creation_match_None)
  qed
  with Some v show ?thesis by (simp add: first_creation_value_def del: upt_Suc)
qed

lemma first_content_date_shape:
  assumes "first_content_date s = Some d"
  shows "shape d ''dddd-dd-dd''"
proof -
  from assms obtain i where "find (\<lambda>i. content_date_here (drop i s)) [0..<Suc (length s)] = Some i"
    and d: "d = take 10 (drop i s)"
    by (auto simp: first_content_date_def simp del: upt_Suc)
  then have "content_date_here (drop i s)" by (simp add: find_upt_Some del: upt_Suc)
  with d show ?thesis by (simp add: content_date_here_def)
qed

lemma strptime_Ymd_shape:
  assumes "shape d ''dddd-dd-dd''" and "date_fields d = (y, m, dd)"
  shows "strptime_Ymd d =
     (if valid_date y m dd
      then Some \<lparr>year = y, month = m, day = dd, hour = 0, minute = 0, second = 0,
                 microsecond = 0\<rparr>
      else None)"
proof -
  from assms(1) obtain y1 y2 y3 y4 m1 m2 d1 d2 where
    d: "d = [y1, y2, y3, y4, CHR ''-'', m1, m2, CHR ''-'', d1, d2]"
    and dig: "is_digit y1" "is_digit y2" "is_digit y3" "is_digit y4"
      "is_digit m1" "is_digit m2" "is_digit d1" "is_digit d2"
    by (auto simp: shape_def list_all2_Cons2)
  from is_digit_val [OF dig(1)] obtain a1 where v1: "digit_val y1 = Some a1" by blast
  from is_digit_val [OF dig(2)] obtain a2 where v2: "digit_val y2 = Some a2" by blast
  from is_digit_val [OF dig(3)] obtain a3 where v3: "digit_val y3 = Some a3" by blast
  from is_digit_val [OF dig(4)] obtain a4 where v4: "digit_val y4 = Some a4" by blast
  from is_digit_val [OF dig(5)] obtain b1 where v5: "digit_val m1 = Some b1" "b1 < 10" by blast
  from is_digit_val [OF dig(6)] obtain b2 where v6: "digit_val m2 = Some b2" "b2 < 10" by blast
  from is_digit_val [OF dig(7)] obtain c1 where v7: "digit_val d1 = Some c1" "c1 < 10" by blast
  from is_digit_val [OF dig(8)] obtain c2 where v8: "digit_val d2 = Some c2" "c2 < 10" by blast
  note v = v1 v2 v3 v4 v5(1) v6(1) v7(1) v8(1)
  note b = v5(2) v6(2) v7(2) v8(2)
  from assms(2) have f: "y = 1000 * a1 + 100 * a2 + 10 * a3 + a4" "m = 10 * b1 + b2"
    "dd = 10 * c1 + c2"
    by (simp_all add: date_fields_def d num_def v)
  show ?thesis
    unfolding d f by (rule strptime_Ymd_digits [OF v b])
qed






subsection \<open>The embedded dates\<close>

lemma extract_date_from_content_read:
  assumes "read_result f = Inr content"
  shows "extract_date_from_content p f w =
     (case first_content_date content of
        None \<Rightarrow> (None, w)
      | Some d \<Rightarrow>
          (case strptime_Ymd d of
             Some dt \<Rightarrow>
               (Some (isoformat (dt\<lparr>hour := 0, minute := 0, second := 0, microsecond := 0\<rparr>)), w)
           | None \<Rightarrow> (None, w)))"
  using assms by (simp add: extract_date_from_content_def content_date_search)

lemma extract_creation_date_read:
  assumes "read_result f = Inr content"
  shows "extract_creation_date p f w =
     (case first_creation_value content of
        None \<Rightarrow> (None, w)
      | Some v \<Rightarrow>
          (case strptime_Ymd_HMS v of
             Some dt \<Rightarrow> (Some (isoformat (dt\<lparr>microsecond := 0\<rparr>)), w)
           | None \<Rightarrow> (None, w)))"
  using assms by (simp add: extract_creation_date_def creation_date_search)

lemma extract_unreadable:
  assumes "read_result f = Inl e"
  shows "extract_date_from_content p f w =
           (None, print (''Error reading file '' @ p @ '': '' @ exception_str e) w)"
    and "extract_creation_date p f w =
           (None, print (''Error reading file '' @ p @ '': '' @ exception_str e) w)"
  using assms by (simp_all add: extract_date_from_content_def extract_creation_date_def)

lemma content_date_valid:
  assumes "read_result f = Inr content" and "first_content_date content = Some d"
    and "date_fields d = (y, m, dd)" and "valid_date y m dd"
  shows "extract_date_from_content p f w =
     (Some (isoformat \<lparr>year = y, month = m, day = dd, hour = 0, minute = 0, second = 0,
                        microsecond = 0\<rparr>), w)"
  using strptime_Ymd_shape [OF first_content_date_shape [OF assms(2)] assms(3)] assms
  by (simp add: extract_date_from_content_read)

lemma content_date_invalid:
  assumes "read_result f = Inr content" and "first_content_date content = Some d"
    and "date_fields d = (y, m, dd)" and "\<not> valid_date y m dd"
  shows "extract_date_from_content p f w = (None, w)"
  using strptime_Ymd_shape [OF first_content_date_shape [OF assms(2)] assms(3)] assms
  by (simp add: extract_date_from_content_read)






lemma strptime_microsecond:
  assumes "strptime_Ymd_HMS v = Some t"
  shows "microsecond t = 0"
proof -
  from assms obtain y m d h mi s where "datetime_new y m d h mi s = Some t"
    by (auto simp: strptime_Ymd_HMS_def split: list.splits if_splits)
  then show ?thesis
    by (auto simp: datetime_new_def split: if_splits)
qed

lemma creation_date_valid:
  assumes "read_result f = Inr content" and "first_creation_value content = Some v"
    and "strptime_Ymd_HMS v = Some t"
  shows "extract_creation_date p f w = (Some (isoformat (t\<lparr>microsecond := 0\<rparr>)), w)"
  using assms by (simp add: extract_creation_date_read)

lemma content_date_absent:
  assumes "read_result f = Inr content" and "first_content_date content = None"
  shows "extract_date_from_content p f w = (None, w)"
  using assms by (simp add: extract_date_from_content_read)





subsection \<open>Falling through\<close>

lemma no_content_date_extract:
  assumes "read_result f = Inr content" and "no_content_date content"
  shows "extract_date_from_content p f w = (None, w)"
proof (cases "first_content_date content")
  case None
  with assms(1) show ?thesis by (rule content_date_absent)
next
  case (Some d)
  obtain y m dd where df: "date_fields d = (y, m, dd)" by (cases "date_fields d")
  with assms(2) Some have "\<not> valid_date y m dd" by (simp add: no_content_date_def)
  with assms(1) Some df show ?thesis by (intro content_date_invalid)
qed

lemma no_creation_date_extract:
  assumes "read_result f = Inr content" and "no_creation_date content"
  shows "extract_creation_date p f w = (None, w)"
proof (cases "first_creation_value content")
  case None
  with assms(1) show ?thesis by (simp add: extract_creation_date_read)
next
  case (Some v)
  with assms(2) have "strptime_Ymd_HMS v = None" by (simp add: no_creation_date_def)
  with assms(1) Some show ?thesis by (simp add: extract_creation_date_read)
qed

lemma extract_date_from_content_truthy:
  "truthy (fst (extract_date_from_content p f w)) \<longleftrightarrow>
     (\<exists>content. read_result f = Inr content \<and> \<not> no_content_date content)"
proof (cases "read_result f")
  case (Inl e)
  then show ?thesis by (simp add: extract_unreadable truthy_def)
next
  case (Inr content)
  show ?thesis
  proof (cases "no_content_date content")
    case True
    with Inr show ?thesis by (simp add: no_content_date_extract truthy_def)
  next
    case False
    then obtain d y m dd where "first_content_date content = Some d"
      "date_fields d = (y, m, dd)" "valid_date y m dd"
      by (auto simp: no_content_date_def split: option.splits)
    from content_date_valid [OF Inr this] False Inr show ?thesis
      by (simp add: truthy_def isoformat_nonempty)
  qed
qed

lemma extract_creation_date_truthy:
  "truthy (fst (extract_creation_date p f w)) \<longleftrightarrow>
     (\<exists>content. read_result f = Inr content \<and> \<not> no_creation_date content)"
proof (cases "read_result f")
  case (Inl e)
  then show ?thesis by (simp add: extract_unreadable truthy_def)
next
  case (Inr content)
  then show ?thesis
    by (auto simp: extract_creation_date_read no_creation_date_def truthy_def isoformat_nonempty
        split: option.splits)
qed

text \<open>
  The strategies fall through: an embedded date that matches but is not a calendar date counts as
  absent, a file that cannot be read is reported twice and resolved by its modification
  time, a file without a valid embedded date is resolved by its modification time without
  its microseconds, and the resolution raises only the exception of reading the
  modification time.
\<close>

lemma resolution_falls_through:
  "(\<not> index_name file \<and> read_result f = Inr content \<and> first_content_date content = Some d \<and>
      date_fields d = (y, m, dd) \<and> \<not> valid_date y m dd \<and>
      first_creation_value content = Some v \<and> strptime_Ymd_HMS v = Some t \<longrightarrow>
      resolve_lastmod clk file file_path f w = Inr (isoformat t, w))
   \<and> (\<not> index_name file \<and> read_result f = Inr content \<and> no_content_date content \<and>
      no_creation_date content \<and> mtime_result f = Inr mt \<longrightarrow>
      resolve_lastmod clk file file_path f w = Inr (isoformat (mt\<lparr>microsecond := 0\<rparr>), w))
   \<and> (\<not> index_name file \<and> read_result f = Inl e \<and> mtime_result f = Inr mt \<longrightarrow>
      resolve_lastmod clk file file_path f w =
        Inr (isoformat (mt\<lparr>microsecond := 0\<rparr>),
             print (''Error reading file '' @ file_path @ '': '' @ exception_str e)
               (print (''Error reading file '' @ file_path @ '': '' @ exception_str e) w)))
   \<and> (resolve_lastmod clk file file_path f w = Inl e' \<longrightarrow>
      \<not> index_name file \<and> mtime_result f = Inl e')"
proof (intro conjI impI)
  assume a: "\<not> index_name file \<and> read_result f = Inr content \<and> first_content_date content = Some d \<and>
      date_fields d = (y, m, dd) \<and> \<not> valid_date y m dd \<and>
      first_creation_value content = Some v \<and> strptime_Ymd_HMS v = Some t"
  then have n: "\<not> startswith (py_lower file) ''index''" by (simp add: index_name_iff)
  from a have "extract_date_from_content file_path f w = (None, w)"
    by (intro content_date_invalid) auto
  moreover from a have "extract_creation_date file_path f w = (Some (isoformat (t\<lparr>microsecond := 0\<rparr>)), w)"
    by (intro creation_date_valid) auto
  moreover from a have "t\<lparr>microsecond := 0\<rparr> = t"
    using strptime_microsecond [of v t] by simp
  ultimately show "resolve_lastmod clk file file_path f w = Inr (isoformat t, w)"
    using n by (simp add: resolve_other truthy_def isoformat_nonempty)
next
  assume a: "\<not> index_name file \<and> read_result f = Inr content \<and> no_content_date content \<and>
      no_creation_date content \<and> mtime_result f = Inr mt"
  then have n: "\<not> startswith (py_lower file) ''index''" by (simp add: index_name_iff)
  from a have "extract_date_from_content file_path f w = (None, w)"
    by (intro no_content_date_extract) auto
  moreover from a have "extract_creation_date file_path f w = (None, w)"
    by (intro no_creation_date_extract) auto
  ultimately show "resolve_lastmod clk file file_path f w =
      Inr (isoformat (mt\<lparr>microsecond := 0\<rparr>), w)"
    using n a by (simp add: resolve_other truthy_def get_file_last_modified_def)
next
  assume a: "\<not> index_name file \<and> read_result f = Inl e \<and> mtime_result f = Inr mt"
  then have n: "\<not> startswith (py_lower file) ''index''" by (simp add: index_name_iff)
  from a have r: "read_result f = Inl e" by simp
  show "resolve_lastmod clk file file_path f w =
        Inr (isoformat (mt\<lparr>microsecond := 0\<rparr>),
             print (''Error reading file '' @ file_path @ '': '' @ exception_str e)
               (print (''Error reading file '' @ file_path @ '': '' @ exception_str e) w))"
    using n a
    by (simp add: resolve_other extract_unreadable [OF r] truthy_def get_file_last_modified_def)
next
  assume a: "resolve_lastmod clk file file_path f w = Inl e'"
  then show "\<not> index_name file"
    by (auto simp: index_name_iff [symmetric] resolve_index)
next
  assume a: "resolve_lastmod clk file file_path f w = Inl e'"
  then have n: "\<not> startswith (py_lower file) ''index''"
    by (auto simp: resolve_index)
  from a show "mtime_result f = Inl e'"
    unfolding resolve_other [OF n]
    by (auto simp: get_file_last_modified_def split: prod.splits if_splits sum.splits)
qed

text \<open>
  C6 fails on the code: for a dangling link named \<^verbatim>\<open>a.html\<close> both ways of reading the file
  raise, the resolution raises the exception of the modification time, and so does the
  scan of a directory that holds it.
\<close>

theorem resolution_raises:
  "resolve_lastmod midnight_clock ''a.html'' ''/site/a.html'' dangling start
     = Inl (OSError ''[Errno 2] No such file or directory'')
   \<and> scan_walk midnight_clock CHR ''/'' ''https://example.com''
       (os_walk CHR ''/'' ''/site'' [] dangling_site) ([], 0, start)
     = Inl (OSError ''[Errno 2] No such file or directory'')"
proof -
  have i: "\<not> startswith (py_lower ''a.html'') ''index''"
    by (simp add: index_name_iff index_name_def same_letters_def)
  have rd: "read_result dangling = Inl (OSError ''[Errno 2] No such file or directory'')"
    by (simp add: dangling_def)
  have mt: "get_file_last_modified dangling = Inl (OSError ''[Errno 2] No such file or directory'')"
    by (simp add: get_file_last_modified_def dangling_def)
  have r: "resolve_lastmod midnight_clock ''a.html'' ''/site/a.html'' dangling w
     = Inl (OSError ''[Errno 2] No such file or directory'')" for w
    by (simp add: resolve_other [OF i] extract_unreadable [OF rd] truthy_def mt)
  have j: "os_path_join CHR ''/'' ''/site'' ''a.html'' = ''/site/a.html''"
    by (simp add: os_path_join_def startswith_def endswith_def)
  have w: "os_walk CHR ''/'' ''/site'' [] dangling_site = [(''/site'', [], [(''a.html'', dangling)])]"
    by (simp add: dangling_site_def)
  have "scan_files midnight_clock CHR ''/'' ''https://example.com'' ''/site'' []
      [(''a.html'', dangling)] ([], 0, start) = Inl (OSError ''[Errno 2] No such file or directory'')"
    by (rule scan_files_raise) (simp_all add: names_site urls_site user_site j r)
  then have "scan_walk midnight_clock CHR ''/'' ''https://example.com''
       (os_walk CHR ''/'' ''/site'' [] dangling_site) ([], 0, start)
     = Inl (OSError ''[Errno 2] No such file or directory'')"
    by (simp only: w scan_walk.simps sum.case)
  with r show ?thesis by simp
qed

end
